theory Spec2Isabelle
  imports Main
begin

unbundle bit_operations_syntax

section \<open>The build orchestrator of komodo (src/komodo/build.py)\<close>

text \<open>
  A shallow embedding of \<^verbatim>\<open>dfs\<close>, \<^verbatim>\<open>cmake\<close>, \<^verbatim>\<open>download\<close> and \<^verbatim>\<open>make\<close>.
  Python dictionaries whose iteration order matters (the requested set \<^verbatim>\<open>pkgs\<close>) are
  association lists; the others are maps. Exceptions and \<^verbatim>\<open>sys.exit\<close> are values of
  the type \<open>error\<close>; a call that never returns is \<open>None\<close>.
\<close>


subsection \<open>Data model\<close>

text \<open>
  The innermost dictionaries of the repository (\<^verbatim>\<open>repo[package_name][ver]\<close>) are read
  through a fixed set of keys. Each key is a field, \<open>k_make\<close> for the key \<^verbatim>\<open>make\<close> and
  so on; \<open>None\<close> is an absent key.
\<close>

record metadata =
  k_depends :: "string list option"
  k_make :: "string option"
  k_url :: "string option"
  k_destination :: "string option"
  k_hash :: "string option"
  k_pypi_package_name :: "string option"
  k_makeopts :: "string option"
  k_makefile :: "string option"

type_synonym repo = "string \<rightharpoonup> (string \<rightharpoonup> metadata)"

text \<open>
  \<^verbatim>\<open>pkgs: Dict[str, str]\<close>, in insertion order: \<^verbatim>\<open>pkgs.items()\<close> is the list itself,
  \<^verbatim>\<open>pkgs[x]\<close> is \<open>map_of pkgs x\<close>. A dictionary has each key once
  (\<open>distinct (map fst pkgs)\<close>).
\<close>

type_synonym pkgs = "(string \<times> string) list"

text \<open>
  \<open>SystemExit code msg\<close> is \<^verbatim>\<open>sys.exit(code)\<close> after \<open>msg\<close> was printed to the
  standard error stream.
\<close>

datatype error =
    KeyError string
  | SystemExit nat string
  | ValueError string
  | NotImplementedError string
  | RuntimeError string
  | TypeError
  | AttributeError
  | ShellError "string list"
  | ConnectionError string
  | OSError string

subsection \<open>Strings\<close>

text \<open>\<^verbatim>\<open>sep.join(xs)\<close>\<close>

fun join :: "string \<Rightarrow> string list \<Rightarrow> string" where
  "join sep [] = []"
| "join sep [x] = x"
| "join sep (x # y # ys) = x @ sep @ join sep (y # ys)"

subsection \<open>Dependency resolution\<close>

text \<open>
  A list comprehension over calls that may raise or not return: the calls run from left
  to right, and the first one that raises or does not return ends the comprehension.
\<close>

fun traverse :: "('a \<Rightarrow> (error + 'b) option) \<Rightarrow> 'a list \<Rightarrow> (error + 'b list) option" where
  "traverse f [] = Some (Inr [])"
| "traverse f (x # xs) =
     (case f x of
        None \<Rightarrow> None
      | Some (Inl e) \<Rightarrow> Some (Inl e)
      | Some (Inr y) \<Rightarrow>
          (case traverse f xs of
             None \<Rightarrow> None
           | Some (Inl e) \<Rightarrow> Some (Inl e)
           | Some (Inr ys) \<Rightarrow> Some (Inr (y # ys))))"

definition missing_msg :: "string list \<Rightarrow> string" where
  "missing_msg deps =
     ''error: '' @ join '','' deps @ '' required as dependency, is not in distribution''"

text \<open>
  \<^verbatim>\<open>dfs(package_name, ver, pkgs, repo)\<close>, lines 24 to 44. The first argument bounds the
  depth of the recursion: \<open>None\<close> is a recursion deeper than the bound, so a call that
  is \<open>None\<close> for every bound recurses without end (the code sets no bound of its own;
  an interpreter stops such a recursion at its limit of frames). \<^verbatim>\<open>pkgs.__contains__\<close>
  is \<open>map_of pkgs d \<noteq> None\<close>. The lazy chain that \<^verbatim>\<open>flatten\<close> returns is the list of
  its elements: the recursive calls are made by the list comprehension, before
  \<^verbatim>\<open>flatten\<close> is called.
\<close>

fun dfs :: "nat \<Rightarrow> string \<Rightarrow> string \<Rightarrow> pkgs \<Rightarrow> repo \<Rightarrow> (error + string list) option" where
  "dfs 0 package_name ver pkgs repo = None"
| "dfs (Suc fuel) package_name ver pkgs repo =
     (case repo package_name of
        None \<Rightarrow> Some (Inl (KeyError package_name))
      | Some versions \<Rightarrow>
          (case versions ver of
             None \<Rightarrow> Some (Inl (KeyError ver))
           | Some current \<Rightarrow>
               (case k_depends current of
                  None \<Rightarrow> Some (Inr [package_name])
                | Some deps \<Rightarrow>
                    if \<not> list_all (\<lambda>d. map_of pkgs d \<noteq> None) deps
                    then Some (Inl (SystemExit 1 (missing_msg deps)))
                    else
                      (case traverse
                              (\<lambda>x. case map_of pkgs x of
                                     None \<Rightarrow> Some (Inl (KeyError x))
                                   | Some v \<Rightarrow> dfs fuel x v pkgs repo)
                              deps of
                         None \<Rightarrow> None
                       | Some (Inl e) \<Rightarrow> Some (Inl e)
                       | Some (Inr dependencies) \<Rightarrow>
                           Some (Inr (concat (dependencies @ [[package_name]])))))))"

text \<open>
  \<^verbatim>\<open>packages_needed = flatten(dfs(pkg, ver, pkgs, repo) for pkg, ver in pkgs.items())\<close>,
  line 260. The generator is consumed to its end by the loop of lines 264 to 268, before
  anything else happens, so its elements are computed here at once.
\<close>

definition packages_needed :: "nat \<Rightarrow> pkgs \<Rightarrow> repo \<Rightarrow> (error + string list) option" where
  "packages_needed fuel pkgs repo =
     (case traverse (\<lambda>(pkg, ver). dfs fuel pkg ver pkgs repo) pkgs of
        None \<Rightarrow> None
      | Some (Inl e) \<Rightarrow> Some (Inl e)
      | Some (Inr outs) \<Rightarrow> Some (Inr (concat outs)))"

text \<open>
  The loop of lines 262 to 268 over \<^verbatim>\<open>packages_needed\<close>, with its two variables
  \<^verbatim>\<open>seen_package\<close> and \<^verbatim>\<open>pkgorder\<close>.
\<close>

fun pkgorder_loop :: "string list \<Rightarrow> string set \<Rightarrow> string list \<Rightarrow> string list" where
  "pkgorder_loop [] seen_package pkgorder = pkgorder"
| "pkgorder_loop (package_needed # rest) seen_package pkgorder =
     (if package_needed \<in> seen_package
      then pkgorder_loop rest seen_package pkgorder
      else pkgorder_loop rest (insert package_needed seen_package) (pkgorder @ [package_needed]))"

text \<open>Lines 260 to 268 of \<^verbatim>\<open>make\<close>: the build plan.\<close>

definition pkgorder :: "nat \<Rightarrow> pkgs \<Rightarrow> repo \<Rightarrow> (error + string list) option" where
  "pkgorder fuel pkgs repo =
     (case packages_needed fuel pkgs repo of
        None \<Rightarrow> None
      | Some (Inl e) \<Rightarrow> Some (Inl e)
      | Some (Inr needed) \<Rightarrow> Some (Inr (pkgorder_loop needed {} [])))"

subsection \<open>The dependency graph of a requested set\<close>

text \<open>
  The dependencies that the repository declares for a requested package at its requested
  version, and the graph they make.
\<close>

definition deps_of :: "pkgs \<Rightarrow> repo \<Rightarrow> string \<Rightarrow> string list" where
  "deps_of pkgs repo p =
     (case map_of pkgs p of
        None \<Rightarrow> []
      | Some v \<Rightarrow>
          (case repo p of
             None \<Rightarrow> []
           | Some versions \<Rightarrow>
               (case versions v of
                  None \<Rightarrow> []
                | Some current \<Rightarrow> (case k_depends current of None \<Rightarrow> [] | Some deps \<Rightarrow> deps))))"

definition dep_graph :: "pkgs \<Rightarrow> repo \<Rightarrow> (string \<times> string) set" where
  "dep_graph pkgs repo = {(p, d). d \<in> set (deps_of pkgs repo p)}"

text \<open>Every requested package has an entry in the repository at its requested version.\<close>

definition covered :: "pkgs \<Rightarrow> repo \<Rightarrow> bool" where
  "covered pkgs repo =
     list_all (\<lambda>(p, v). case repo p of None \<Rightarrow> False | Some versions \<Rightarrow> versions v \<noteq> None) pkgs"

text \<open>Every declared dependency of a requested package is requested.\<close>

definition deps_requested :: "pkgs \<Rightarrow> repo \<Rightarrow> bool" where
  "deps_requested pkgs repo =
     list_all (\<lambda>(p, v). list_all (\<lambda>d. map_of pkgs d \<noteq> None) (deps_of pkgs repo p)) pkgs"


subsection \<open>Auxiliary functions of the proofs\<close>



subsection \<open>More strings and paths\<close>

text \<open>\<^verbatim>\<open>s.split(sep)\<close> for a separator of one character.\<close>

fun split_on :: "char \<Rightarrow> string \<Rightarrow> string list" where
  "split_on sep [] = [[]]"
| "split_on sep (c # cs) =
     (if c = sep then [] # split_on sep cs
      else (case split_on sep cs of [] \<Rightarrow> [[c]] | w # ws \<Rightarrow> (c # w) # ws))"

text \<open>\<^verbatim>\<open>s.startswith(p)\<close>\<close>

definition startswith :: "string \<Rightarrow> string \<Rightarrow> bool" where
  "startswith s p = (take (length p) s = p)"

text \<open>
  \<^verbatim>\<open>s.replace(old, new)\<close> for a nonempty \<open>old\<close>, the only use in the source
  (\<^verbatim>\<open>"$(prefix)"\<close>): the occurrences are replaced from the left and do not overlap.
\<close>

function replace :: "string \<Rightarrow> string \<Rightarrow> string \<Rightarrow> string" where
  "replace old new [] = []"
| "replace old new (c # cs) =
     (if old \<noteq> [] \<and> take (length old) (c # cs) = old
      then new @ replace old new (drop (length old) (c # cs))
      else c # replace old new cs)"
  by pat_completeness auto
termination
  by (relation "measure (\<lambda>(old, new, s). length s)") auto

text \<open>The decimal digits of a number: \<^verbatim>\<open>str(n)\<close>, or \<^verbatim>\<open>{n}\<close> in a format string.\<close>

fun str_nat :: "nat \<Rightarrow> string" where
  "str_nat n =
     (if n < 10 then [''0123456789'' ! n]
      else str_nat (n div 10) @ [''0123456789'' ! (n mod 10)])"

declare str_nat.simps [simp del]

text \<open>An optional string in a format string: \<^verbatim>\<open>None\<close> prints as its name.\<close>

definition str_opt :: "string option \<Rightarrow> string" where
  "str_opt s = (case s of None \<Rightarrow> ''None'' | Some t \<Rightarrow> t)"

text \<open>\<^verbatim>\<open>os.path.join(a, b)\<close> on POSIX.\<close>

definition path_join :: "string \<Rightarrow> string \<Rightarrow> string" where
  "path_join a b =
     (if startswith b ''/'' then b
      else if a = [] \<or> last a = CHR ''/'' then a @ b
      else a @ ''/'' @ b)"

text \<open>
  A \<^verbatim>\<open>pathlib.Path\<close> on POSIX: its root (\<^verbatim>\<open>""\<close>, \<^verbatim>\<open>"/"\<close>, or \<^verbatim>\<open>"//"\<close> for exactly two
  leading slashes) and its names. Empty components and \<^verbatim>\<open>.\<close> are dropped when a path is
  parsed, \<^verbatim>\<open>..\<close> is kept.
\<close>

type_synonym path = "string \<times> string list"

definition Path :: "string \<Rightarrow> path" where
  "Path s =
     (if startswith s ''//'' \<and> \<not> startswith s ''///'' then ''//''
      else if startswith s ''/'' then ''/'' else [],
      filter (\<lambda>c. c \<noteq> [] \<and> c \<noteq> ''.'') (split_on CHR ''/'' s))"

text \<open>\<^verbatim>\<open>p / s\<close>: a second operand with a root replaces the first.\<close>

definition joinpath :: "path \<Rightarrow> string \<Rightarrow> path" where
  "joinpath p s = (let q = Path s in if fst q \<noteq> [] then q else (fst p, snd p @ snd q))"

text \<open>\<^verbatim>\<open>p.parts\<close>\<close>

definition parts :: "path \<Rightarrow> string list" where
  "parts p = (if fst p = [] then [] else [fst p]) @ snd p"

subsection \<open>The process and what is outside it\<close>

text \<open>
  What a run does to the outside, in order: external commands (\<^verbatim>\<open>shell\<close>), directories
  made, requests sent, files opened for writing, changes of mode. Text written to the
  standard output is not recorded.
\<close>

datatype event =
    Shell "string list"
  | Mkdir string
  | HttpGet string
  | PypiQuery string
  | OpenWrite path
  | Chmod path nat

record fnode =
  content :: string
  mode :: nat

text \<open>
  The state of the process: \<^verbatim>\<open>os.environ\<close>, the files that \<^verbatim>\<open>download\<close> writes, and the
  events so far. The working directory, which only \<^verbatim>\<open>pushd\<close> changes and restores, is
  left out.
\<close>

record world =
  environ :: "string \<rightharpoonup> string"
  files :: "path \<rightharpoonup> fnode"
  trace :: "event list"

text \<open>
  What the code leaves to its libraries and to the modules of the repository that are
  not among the sources (\<^verbatim>\<open>komodo.shell\<close>, \<^verbatim>\<open>komodo.package_version\<close>), as parameters:
  \<^item> \<open>run\<close>: the outcome of an external command after the events so far, \<open>None\<close> when it
    fails and \<^verbatim>\<open>shell\<close> raises, its output otherwise;
  \<^item> \<open>mkdir_ok\<close>, \<open>open_ok\<close>: whether a directory can be made, a file opened for writing;
  \<^item> \<open>http_get\<close>: the answer to \<^verbatim>\<open>session.get(url, stream=True)\<close>, \<open>None\<close> when the
    transport fails for good, the status code and the chunks of
    \<^verbatim>\<open>iter_content(chunk_size=1024)\<close> otherwise;
  \<^item> \<open>sha256_hexdigest\<close>: \<^verbatim>\<open>hashlib.sha256(data).hexdigest()\<close>;
  \<^item> \<open>create_mode\<close>: the mode of a file that \<^verbatim>\<open>open\<close> creates;
  \<^item> \<open>abspath\<close>: \<^verbatim>\<open>os.path.abspath\<close>;
  \<^item> \<open>strip_version\<close>, \<open>LATEST_PACKAGE_ALIAS\<close>, \<open>latest_pypi_version\<close>: the names that
    \<^verbatim>\<open>build.py\<close> imports from \<^verbatim>\<open>komodo.package_version\<close>.
\<close>

record externals =
  run :: "event list \<Rightarrow> string list \<Rightarrow> string option"
  mkdir_ok :: "event list \<Rightarrow> string \<Rightarrow> bool"
  open_ok :: "event list \<Rightarrow> path \<Rightarrow> bool"
  http_get :: "string \<Rightarrow> (nat \<times> string list) option"
  sha256_hexdigest :: "string \<Rightarrow> string"
  create_mode :: nat
  abspath :: "string \<Rightarrow> string"
  strip_version :: "string \<Rightarrow> string"
  LATEST_PACKAGE_ALIAS :: string
  latest_pypi_version :: "string \<Rightarrow> string"

text \<open>A step of the program: it raises or returns a value, and leaves a state.\<close>

type_synonym 'a action = "world \<Rightarrow> (error + 'a) \<times> world"

definition seq :: "'a action \<Rightarrow> ('a \<Rightarrow> 'b action) \<Rightarrow> 'b action" where
  "seq m f w = (case m w of (Inl e, w1) \<Rightarrow> (Inl e, w1) | (Inr x, w1) \<Rightarrow> f x w1)"

definition return :: "'a \<Rightarrow> 'a action" where
  "return x w = (Inr x, w)"

definition raise :: "error \<Rightarrow> 'a action" where
  "raise e w = (Inl e, w)"

definition emit :: "event \<Rightarrow> world \<Rightarrow> world" where
  "emit ev w = w\<lparr>trace := trace w @ [ev]\<rparr>"

text \<open>
  Modelled from the spec: \<^verbatim>\<open>shell\<close> of \<^verbatim>\<open>komodo.shell\<close>, which is not among the sources;
  the spec has it as "run external command, capture output, propagate failure". The
  command is the list of its fragments (a single string is a list of one).
\<close>

definition shell :: "externals \<Rightarrow> string list \<Rightarrow> string action" where
  "shell ext cmd w =
     (case run ext (trace w) cmd of
        None \<Rightarrow> (Inl (ShellError cmd), emit (Shell cmd) w)
      | Some out \<Rightarrow> (Inr out, emit (Shell cmd) w))"

text \<open>\<^verbatim>\<open>Path(d).mkdir(parents=True, exist_ok=True)\<close>\<close>

definition mkdir :: "externals \<Rightarrow> string \<Rightarrow> unit action" where
  "mkdir ext d w =
     (if mkdir_ok ext (trace w) d then (Inr (), emit (Mkdir d) w)
      else (Inl (OSError d), emit (Mkdir d) w))"

text \<open>\<^verbatim>\<open>os.environ[k] = v\<close>: a value that is \<^verbatim>\<open>None\<close> raises \<^verbatim>\<open>TypeError\<close>.\<close>

definition setenv :: "string \<Rightarrow> string option \<Rightarrow> unit action" where
  "setenv k v w =
     (case v of
        None \<Rightarrow> (Inl TypeError, w)
      | Some s \<Rightarrow> (Inr (), w\<lparr>environ := (environ w)(k \<mapsto> s)\<rparr>))"

text \<open>\<^verbatim>\<open>os.environ[k]\<close>\<close>

definition getenv :: "string \<Rightarrow> string action" where
  "getenv k w = (case environ w k of None \<Rightarrow> (Inl (KeyError k), w) | Some s \<Rightarrow> (Inr s, w))"

text \<open>\<^verbatim>\<open>os.environ.get(k)\<close>\<close>

definition environ_get :: "string \<Rightarrow> string option action" where
  "environ_get k w = (Inr (environ w k), w)"

text \<open>\<^verbatim>\<open>del os.environ[k]\<close>\<close>

definition delenv :: "string \<Rightarrow> unit action" where
  "delenv k w =
     (case environ w k of
        None \<Rightarrow> (Inl (KeyError k), w)
      | Some s \<Rightarrow> (Inr (), w\<lparr>environ := (environ w)(k := None)\<rparr>))"

subsection \<open>The installation strategies\<close>

text \<open>
  \<^verbatim>\<open>rpm\<close>, lines 47 to 53. \<^verbatim>\<open>pushd\<close> changes the working directory for the three
  commands and is not modelled.
\<close>

definition rpm :: "externals \<Rightarrow> string \<Rightarrow> string \<Rightarrow> string \<Rightarrow> string \<Rightarrow> unit action" where
  "rpm ext package_name ver pkgpath prefix =
     seq (shell ext [''rpm2cpio '' @ pkgpath @ ''.rpm | cpio -imd --quiet'']) (\<lambda>_.
     seq (shell ext [''rsync -a usr/* .'']) (\<lambda>_.
     seq (shell ext [''rm -rf usr'']) (\<lambda>_.
     return ())))"

text \<open>\<^verbatim>\<open>cmake\<close>, lines 65 to 106.\<close>

definition cmake ::
  "externals \<Rightarrow> string \<Rightarrow> string \<Rightarrow> string \<Rightarrow> string \<Rightarrow> string option \<Rightarrow> string \<Rightarrow> nat \<Rightarrow> string
     \<Rightarrow> string option \<Rightarrow> string option \<Rightarrow> string \<Rightarrow> unit action" where
  "cmake ext package_name ver pkgpath prefix builddir makeopts jobs fakeroot ld_lib_path
       bin_path cmake_exe =
     (let bdir0 = package_name @ ''-'' @ ver @ ''-build'';
          bdir = (case builddir of None \<Rightarrow> bdir0 | Some b \<Rightarrow> path_join b bdir0);
          fakeprefix = fakeroot @ prefix;
          flags =
            [''-DCMAKE_BUILD_TYPE=Release'',
             ''-DBOOST_ROOT='' @ fakeprefix,
             ''-DBUILD_SHARED_LIBS=ON'',
             ''-DCMAKE_PREFIX_PATH='' @ fakeprefix,
             ''-DCMAKE_MODULE_PATH='' @ fakeprefix @ ''/share/cmake/Modules'',
             ''-DCMAKE_INSTALL_PREFIX='' @ prefix,
             ''-DDEST_PREFIX='' @ fakeroot]
      in
        seq (mkdir ext bdir) (\<lambda>_.
        seq (setenv ''LD_LIBRARY_PATH'' ld_lib_path) (\<lambda>_.
        seq (getenv ''PATH'') (\<lambda>pre_PATH.
        seq (setenv ''PATH'' bin_path) (\<lambda>_.
        seq (shell ext ([cmake_exe, pkgpath] @ flags @ [makeopts])) (\<lambda>_.
        seq (shell ext [''make -j'' @ str_nat jobs]) (\<lambda>_.
        seq (shell ext [''make DESTDIR='' @ fakeroot @ '' install'']) (\<lambda>_.
        seq (delenv ''LD_LIBRARY_PATH'') (\<lambda>_.
        setenv ''PATH'' (Some pre_PATH))))))))))"

text \<open>
  \<^verbatim>\<open>sh\<close>, lines 109 to 146, with the arguments that \<^verbatim>\<open>make\<close> passes. \<open>data\<close> is
  \<^verbatim>\<open>data.get\<close>, as the text it formats to.
\<close>

definition sh ::
  "externals \<Rightarrow> string \<Rightarrow> string \<Rightarrow> string \<Rightarrow> (string option \<Rightarrow> string) \<Rightarrow> string \<Rightarrow> string option
     \<Rightarrow> string \<Rightarrow> string \<Rightarrow> string \<Rightarrow> string \<Rightarrow> string option \<Rightarrow> string \<Rightarrow> nat \<Rightarrow> string
     \<Rightarrow> string \<Rightarrow> unit action" where
  "sh ext package_name ver pkgpath data prefix makefile_key fakeroot pythonpath bin_path pip
       virtualenv ld_lib_path jobs cmake_exe makeopts =
     (let makefile = data makefile_key;
          cmd =
            [''bash '' @ makefile @ '' --prefix '' @ prefix,
             ''--fakeroot '' @ fakeroot,
             ''--python '' @ prefix @ ''/bin/python'']
            @ (if jobs \<noteq> 0 then [''--jobs '' @ str_nat jobs] else [])
            @ (if cmake_exe \<noteq> [] then [''--cmake '' @ cmake_exe] else [])
            @ [''--pythonpath '' @ pythonpath,
               ''--path '' @ bin_path,
               ''--pip '' @ pip,
               ''--virtualenv '' @ str_opt virtualenv,
               ''--ld-library-path '' @ ld_lib_path,
               makeopts]
      in seq (shell ext cmd) (\<lambda>_. return ()))"

text \<open>\<^verbatim>\<open>rsync\<close>, lines 149 to 159.\<close>

definition rsync ::
  "externals \<Rightarrow> string \<Rightarrow> string \<Rightarrow> string \<Rightarrow> string \<Rightarrow> string \<Rightarrow> string \<Rightarrow> unit action" where
  "rsync ext package_name ver pkgpath prefix fakeroot makeopts =
     seq (shell ext [''rsync -am'', makeopts, pkgpath @ ''/'', fakeroot @ prefix])
       (\<lambda>_. return ())"

text \<open>
  The object \<^verbatim>\<open>hashlib.sha256()\<close> is the bytes it was fed; the loop of lines 192 to 194
  writes each chunk to the file and feeds it to the digest.
\<close>

fun write_chunks :: "string list \<Rightarrow> string \<times> string \<Rightarrow> string \<times> string" where
  "write_chunks [] (file_handle, sha256) = (file_handle, sha256)"
| "write_chunks (chunk # rest) (file_handle, sha256) =
     write_chunks rest (file_handle @ chunk, sha256 @ chunk)"

text \<open>
  \<^verbatim>\<open>open(dest_path, "wb")\<close> and the loop: the file is made, or emptied with its mode kept,
  and then holds the chunks.
\<close>

definition write_file :: "externals \<Rightarrow> path \<Rightarrow> string list \<Rightarrow> string action" where
  "write_file ext dest_path chunks w =
     (if \<not> open_ok ext (trace w) dest_path
      then (Inl (OSError (concat (parts dest_path))), emit (OpenWrite dest_path) w)
      else
        (let m = (case files w dest_path of None \<Rightarrow> create_mode ext | Some f \<Rightarrow> mode f);
             (file_handle, sha256) = write_chunks chunks ([], [])
         in (Inr sha256,
             emit (OpenWrite dest_path)
               (w\<lparr>files := (files w)(dest_path \<mapsto> \<lparr>content = file_handle, mode = m\<rparr>)\<rparr>))))"

text \<open>
  \<^verbatim>\<open>dest_path.chmod(dest_path.stat().st_mode | stat.S_IXUSR | stat.S_IXGRP | stat.S_IXOTH)\<close>:
  the three bits are \<open>0o100\<close>, \<open>0o010\<close> and \<open>0o001\<close>.
\<close>

definition chmod_exec :: "path \<Rightarrow> unit action" where
  "chmod_exec dest_path w =
     (case files w dest_path of
        None \<Rightarrow> (Inl (OSError (concat (parts dest_path))), w)
      | Some f \<Rightarrow>
          (let m = mode f OR 64 OR 8 OR 1
           in (Inr (),
               emit (Chmod dest_path m) (w\<lparr>files := (files w)(dest_path \<mapsto> f\<lparr>mode := m\<rparr>)\<rparr>))))"

text \<open>\<^verbatim>\<open>session.get(url, stream=True)\<close>, after the retries of the adapter.\<close>

definition session_get :: "externals \<Rightarrow> string \<Rightarrow> (nat \<times> string list) action" where
  "session_get ext url w =
     (case http_get ext url of
        None \<Rightarrow> (Inl (ConnectionError url), emit (HttpGet url) w)
      | Some response \<Rightarrow> (Inr response, emit (HttpGet url) w))"

text \<open>
  \<^verbatim>\<open>download\<close>, lines 162 to 206. The assignment of line 169 raises \<^verbatim>\<open>ValueError\<close> when
  the text does not split in two at its colons.
\<close>

definition download ::
  "externals \<Rightarrow> string \<Rightarrow> string \<Rightarrow> string \<Rightarrow> string \<Rightarrow> string \<Rightarrow> string \<Rightarrow> string \<Rightarrow> unit action" where
  "download ext package_name ver prefix url hash_str fakeroot destination =
     (if \<not> startswith url ''https''
      then raise (ValueError (url @ '' does not use https:// protocol''))
      else
        (case split_on CHR '':'' hash_str of
           [hash_type, hash_value] \<Rightarrow>
             if hash_type \<noteq> ''sha256''
             then raise (NotImplementedError
                    (''Hash type '' @ hash_type @ '' given - only sha256 implemented''))
             else
               (let fakeprefix = Path (fakeroot @ prefix);
                    dest_path = joinpath fakeprefix destination
                in
                  seq (session_get ext url) (\<lambda>(status_code, chunks).
                    if status_code \<noteq> 200
                    then raise (RuntimeError
                           (''GET request to '' @ url @ '' returned status code ''
                              @ str_nat status_code))
                    else
                      seq (write_file ext dest_path chunks) (\<lambda>sha256.
                        if sha256_hexdigest ext sha256 \<noteq> hash_value
                        then raise (ValueError
                               (''Hash of downloaded file ('' @ sha256_hexdigest ext sha256
                                  @ '') not equal to expected hash.''))
                        else if ''bin'' \<in> set (parts dest_path)
                        then chmod_exec dest_path
                        else return ())))
         | [_] \<Rightarrow> raise (ValueError ''not enough values to unpack (expected 2, got 1)'')
         | _ \<Rightarrow> raise (ValueError ''too many values to unpack (expected 2)'')))"

text \<open>
  \<^verbatim>\<open>pip_install\<close>, lines 209 to 227. The look-up of the latest version asks the package
  index.
\<close>

definition pip_install ::
  "externals \<Rightarrow> string \<Rightarrow> string \<Rightarrow> string \<Rightarrow> string option \<Rightarrow> string \<Rightarrow> string \<Rightarrow> string
     \<Rightarrow> unit action" where
  "pip_install ext package_name ver0 prefix dlprefix fakeroot pip makeopts =
     seq (\<lambda>w. if strip_version ext ver0 = LATEST_PACKAGE_ALIAS ext
               then (Inr (latest_pypi_version ext package_name), emit (PypiQuery package_name) w)
               else (Inr (strip_version ext ver0), w)) (\<lambda>ver.
     seq (shell ext
            [pip,
             ''install '' @ package_name @ ''=='' @ strip_version ext ver,
             ''--root '' @ fakeroot,
             ''--prefix '' @ prefix,
             ''--no-index'',
             ''--no-deps'',
             ''--ignore-installed'',
             ''--cache-dir '' @ str_opt dlprefix,
             ''--find-links '' @ str_opt dlprefix,
             makeopts]) (\<lambda>_.
     return ()))"

text \<open>\<^verbatim>\<open>noop\<close>, lines 230 and 231: it prints.\<close>

definition noop :: "string \<Rightarrow> string \<Rightarrow> unit action" where
  "noop package_name ver = return ()"

text \<open>\<^verbatim>\<open>pypaths\<close>, lines 234 to 244.\<close>

definition pypaths :: "string \<Rightarrow> string option \<Rightarrow> string" where
  "pypaths prefix version =
     (case version of
        None \<Rightarrow> []
      | Some ver \<Rightarrow>
          (let pyver = ''python'' @ join ''.'' (butlast (split_on CHR ''.'' ver))
           in join '':''
                [prefix @ ''/lib/'' @ pyver,
                 prefix @ ''/lib/'' @ pyver @ ''/site-packages'',
                 prefix @ ''/lib64/'' @ pyver @ ''/site-packages'']))"

subsection \<open>The orchestrator\<close>

text \<open>
  The local variables of \<^verbatim>\<open>make\<close> that its loop reads: the arguments, with \<^verbatim>\<open>prefix\<close>
  after line 272, and what lines 279 to 291 compute once.
\<close>

record loop_vars =
  c_pkgs :: pkgs
  c_repo :: repo
  c_data :: "string option \<Rightarrow> string"
  c_prefix :: string
  c_dlprefix :: "string option"
  c_builddir :: "string option"
  c_jobs :: nat
  c_cmk :: string
  c_pip :: string
  c_virtualenv :: "string option"
  c_fakeroot :: string
  c_ld_lib_path :: string
  c_extra_makeopts :: "string option"
  c_build_pythonpath :: string
  c_bin_path :: string

text \<open>\<^verbatim>\<open>resolve\<close>, lines 297 and 298, the inner function of \<^verbatim>\<open>make\<close>.\<close>

definition resolve :: "string \<Rightarrow> string \<Rightarrow> string" where
  "resolve prefix input_str = replace ''$(prefix)'' prefix input_str"

text \<open>
  Lines 306 to 318: the three checks of an entry against its build method, the message
  of the first one that fails.
\<close>

definition download_keys :: "string list" where
  "download_keys = [''url'', ''destination'', ''hash'']"

definition check_entry :: "metadata \<Rightarrow> string \<Rightarrow> string option" where
  "check_entry current mk =
     (if (k_url current \<noteq> None \<or> k_destination current \<noteq> None \<or> k_hash current \<noteq> None)
          \<and> mk \<noteq> ''download''
      then Some (join '', '' download_keys @ '' only valid with '' @ [CHR 0x27] @ ''make: download'' @ [CHR 0x27])
      else if \<not> (k_url current \<noteq> None \<and> k_destination current \<noteq> None \<and> k_hash current \<noteq> None)
          \<and> mk = ''download''
      then Some (join '', '' download_keys @ '' all required with '' @ [CHR 0x27] @ ''make: download'' @ [CHR 0x27])
      else if k_pypi_package_name current \<noteq> None \<and> mk \<noteq> ''pip''
      then Some ''pypi_package_name is only valid when building with pip''
      else None)"

text \<open>
  Lines 327 to 393: the call of the strategy. The first \<^verbatim>\<open>if\<close> stands alone, so after
  \<^verbatim>\<open>rpm\<close> has run the chain that follows ends in its \<^verbatim>\<open>else\<close>.
\<close>

definition dispatch ::
  "externals \<Rightarrow> loop_vars \<Rightarrow> metadata \<Rightarrow> string \<Rightarrow> string \<Rightarrow> string \<Rightarrow> string \<Rightarrow> string
     \<Rightarrow> unit action" where
  "dispatch ext c current mk package_name ver pkgpath mkopts =
     seq (if mk = ''rpm'' then rpm ext package_name ver pkgpath (c_prefix c) else return ())
       (\<lambda>_.
          if mk = ''cmake'' then
            cmake ext package_name ver pkgpath (c_prefix c) (c_builddir c) mkopts (c_jobs c)
              (c_fakeroot c) (Some (c_ld_lib_path c)) (Some (c_bin_path c)) (c_cmk c)
          else if mk = ''pip'' then
            pip_install ext package_name ver (c_prefix c) (c_dlprefix c) (c_fakeroot c)
              (c_pip c) mkopts
          else if mk = ''sh'' then
            sh ext package_name ver pkgpath (c_data c) (c_prefix c) (k_makefile current)
              (c_fakeroot c) (c_build_pythonpath c) (c_bin_path c) (c_pip c) (c_virtualenv c)
              (c_ld_lib_path c) (c_jobs c) (c_cmk c) mkopts
          else if mk = ''rsync'' then
            rsync ext package_name ver pkgpath (c_prefix c) (c_fakeroot c) mkopts
          else if mk = ''noop'' then noop package_name ver
          else if mk = ''download'' then
            (case (k_url current, k_hash current, k_destination current) of
               (Some u, Some h, Some d) \<Rightarrow>
                 download ext package_name ver (c_prefix c) u h (c_fakeroot c) d
             | _ \<Rightarrow> raise AttributeError)
          else raise (ValueError (''Non-supported make: '' @ mk)))"

text \<open>The body of the loop of lines 300 to 393, for one package and its path.\<close>

definition make_entry :: "externals \<Rightarrow> loop_vars \<Rightarrow> string \<times> string \<Rightarrow> unit action" where
  "make_entry ext c entry =
     (case entry of (package_name, path) \<Rightarrow>
        (case map_of (c_pkgs c) package_name of
           None \<Rightarrow> raise (KeyError package_name)
         | Some ver \<Rightarrow>
             (case c_repo c package_name of
                None \<Rightarrow> raise (KeyError package_name)
              | Some versions \<Rightarrow>
                  (case versions ver of
                     None \<Rightarrow> raise (KeyError ver)
                   | Some current \<Rightarrow>
                       (case k_make current of
                          None \<Rightarrow> raise (KeyError ''make'')
                        | Some mk \<Rightarrow>
                            (let pkgpath = abspath ext path in
                               (case check_entry current mk of
                                  Some msg \<Rightarrow> raise (ValueError msg)
                                | None \<Rightarrow>
                                    (let package_name' =
                                           (case k_pypi_package_name current of
                                              None \<Rightarrow> package_name
                                            | Some n \<Rightarrow> n);
                                         mkopts0 =
                                           (case k_makeopts current of None \<Rightarrow> [] | Some m \<Rightarrow> m);
                                         mkopts1 =
                                           (case c_extra_makeopts c of
                                              None \<Rightarrow> mkopts0
                                            | Some x \<Rightarrow>
                                                if x = [] then mkopts0 else mkopts0 @ '' '' @ x);
                                         mkopts = resolve (c_prefix c) mkopts1
                                     in dispatch ext c current mk package_name' ver pkgpath
                                          mkopts))))))))"

text \<open>The loop of line 300: it stops at the first entry that raises.\<close>

fun make_loop :: "externals \<Rightarrow> loop_vars \<Rightarrow> (string \<times> string) list \<Rightarrow> unit action" where
  "make_loop ext c [] = return ()"
| "make_loop ext c (entry # rest) = seq (make_entry ext c entry) (\<lambda>_. make_loop ext c rest)"

text \<open>Lines 293 to 295: the paths of the packages of the plan.\<close>

fun pkgpath_names :: "pkgs \<Rightarrow> string list \<Rightarrow> error + string list" where
  "pkgpath_names pkgs [] = Inr []"
| "pkgpath_names pkgs (package_name # rest) =
     (case map_of pkgs package_name of
        None \<Rightarrow> Inl (KeyError package_name)
      | Some ver \<Rightarrow>
          (case pkgpath_names pkgs rest of
             Inl e \<Rightarrow> Inl e
           | Inr paths \<Rightarrow> Inr ((package_name @ ''-'' @ ver) # paths)))"

definition pkgpaths :: "pkgs \<Rightarrow> string option \<Rightarrow> string list \<Rightarrow> error + string list" where
  "pkgpaths pkgs dlprefix order =
     (case pkgpath_names pkgs order of
        Inl e \<Rightarrow> Inl e
      | Inr paths \<Rightarrow>
          Inr (case dlprefix of
                 None \<Rightarrow> paths
               | Some d \<Rightarrow> if d = [] then paths else map (path_join d) paths))"

text \<open>
  Lines 270 to 295 of \<^verbatim>\<open>make\<close>, after the plan is known: the staging directory, the
  environment of the run, and the variables of the loop.
\<close>

definition make_setup ::
  "externals \<Rightarrow> pkgs \<Rightarrow> repo \<Rightarrow> (string option \<Rightarrow> string) \<Rightarrow> string \<Rightarrow> string option \<Rightarrow> string option
     \<Rightarrow> nat \<Rightarrow> string \<Rightarrow> string \<Rightarrow> string option \<Rightarrow> string \<Rightarrow> loop_vars action" where
  "make_setup ext pkgs repo data prefix0 dlprefix builddir jobs cmk pip virtualenv fakeroot =
     (let fakeprefix = fakeroot @ prefix0 in
      seq (shell ext [''mkdir -p'', fakeprefix]) (\<lambda>_.
      seq (setenv ''DESTDIR'' (Some fakeroot)) (\<lambda>_.
      seq (setenv ''BOOST_ROOT'' (Some fakeprefix)) (\<lambda>_.
      seq (environ_get ''LD_LIBRARY_PATH'') (\<lambda>ld.
      seq (environ_get ''EXTRA_MAKEOPTS'') (\<lambda>extra_makeopts.
      seq (getenv ''PATH'') (\<lambda>path_var.
      return
        \<lparr>c_pkgs = pkgs, c_repo = repo, c_data = data, c_prefix = abspath ext prefix0,
         c_dlprefix = dlprefix, c_builddir = builddir, c_jobs = jobs, c_cmk = cmk,
         c_pip = pip, c_virtualenv = virtualenv, c_fakeroot = fakeroot,
         c_ld_lib_path =
           join '':''
             ([path_join fakeprefix ''lib'', path_join fakeprefix ''lib64'']
              @ (case ld of None \<Rightarrow> [] | Some l \<Rightarrow> if l = [] then [] else [l])),
         c_extra_makeopts = extra_makeopts,
         c_build_pythonpath = pypaths fakeprefix (map_of pkgs ''python''),
         c_bin_path = join '':'' [path_join fakeprefix ''bin'', path_var]\<rparr>)))))))"

text \<open>
  \<^verbatim>\<open>make\<close>, lines 247 to 393. The first argument bounds the depth of the recursion of
  \<^verbatim>\<open>dfs\<close>; \<open>None\<close> is a resolution that does not return.
\<close>

definition make ::
  "nat \<Rightarrow> externals \<Rightarrow> pkgs \<Rightarrow> repo \<Rightarrow> (string option \<Rightarrow> string) \<Rightarrow> string \<Rightarrow> string option
     \<Rightarrow> string option \<Rightarrow> nat \<Rightarrow> string \<Rightarrow> string \<Rightarrow> string option \<Rightarrow> string
     \<Rightarrow> world \<Rightarrow> ((error + unit) \<times> world) option" where
  "make fuel ext pkgs repo data prefix dlprefix builddir jobs cmk pip virtualenv fakeroot w =
     (case pkgorder fuel pkgs repo of
        None \<Rightarrow> None
      | Some (Inl e) \<Rightarrow> Some (Inl e, w)
      | Some (Inr order) \<Rightarrow>
          Some
            (seq (make_setup ext pkgs repo data prefix dlprefix builddir jobs cmk pip virtualenv
                    fakeroot) (\<lambda>c.
               case pkgpaths pkgs dlprefix order of
                 Inl e \<Rightarrow> raise e
               | Inr paths \<Rightarrow> make_loop ext c (zip order paths)) w))"

subsection \<open>Concrete requested sets and repositories\<close>

text \<open>A repository entry with a build method and a dependency list, and no other key.\<close>

definition entry :: "string \<Rightarrow> string list option \<Rightarrow> metadata" where
  "entry m deps =
     \<lparr>k_depends = deps, k_make = Some m, k_url = None, k_destination = None, k_hash = None,
      k_pypi_package_name = None, k_makeopts = None, k_makefile = None\<rparr>"

definition pkgs_ok :: pkgs where
  "pkgs_ok = [(''app'', ''1.0''), (''lib'', ''2.0''), (''python'', ''3.8'')]"

definition repo_ok :: repo where
  "repo_ok =
     [''app'' \<mapsto> [''1.0'' \<mapsto> entry ''pip'' (Some [''lib'', ''python''])],
      ''lib'' \<mapsto> [''2.0'' \<mapsto> entry ''cmake'' (Some [''python''])],
      ''python'' \<mapsto> [''3.8'' \<mapsto> entry ''sh'' None]]"

definition pkgs_cyclic :: pkgs where
  "pkgs_cyclic = [(''a'', ''1''), (''b'', ''1'')]"

definition repo_cyclic :: repo where
  "repo_cyclic =
     [''a'' \<mapsto> [''1'' \<mapsto> entry ''noop'' (Some [''b''])],
      ''b'' \<mapsto> [''1'' \<mapsto> entry ''noop'' (Some [''a''])]]"

definition pkgs_runner :: pkgs where
  "pkgs_runner = [(''pytest-runner'', ''6.0.0'')]"

definition repo_runner :: repo where
  "repo_runner =
     [''pytest-runner'' \<mapsto>
        [''6.0.0'' \<mapsto> entry ''pip'' (Some [''wheel'', ''setuptools'', ''python''])]]"

definition pkgs_ghost :: pkgs where
  "pkgs_ghost = [(''ghost'', ''1.0''), (''pytest-runner'', ''6.0.0'')]"

definition pkgs_unlisted :: pkgs where
  "pkgs_unlisted = [(''b'', ''1''), (''c'', ''1'')]"

definition repo_unlisted :: repo where
  "repo_unlisted = [''b'' \<mapsto> [''1'' \<mapsto> entry ''noop'' (Some [''c''])]]"

definition pkgs_both :: pkgs where
  "pkgs_both = [(''a'', ''1''), (''b'', ''1''), (''c'', ''1'')]"

definition repo_both :: repo where
  "repo_both =
     [''a'' \<mapsto> [''1'' \<mapsto> entry ''noop'' (Some [''zzz''])],
      ''b'' \<mapsto> [''1'' \<mapsto> entry ''noop'' (Some [''c''])]]"

subsection \<open>Concrete surroundings\<close>

text \<open>
  Surroundings in which every external command, directory, file and request succeeds; the
  request returns two chunks and the digest of anything is \<open>0f\<close>. In \<open>ext_fail\<close> every
  external command fails.
\<close>

definition ext_ok :: externals where
  "ext_ok =
     \<lparr>run = (\<lambda>_ _. Some []), mkdir_ok = (\<lambda>_ _. True), open_ok = (\<lambda>_ _. True),
      http_get = (\<lambda>_. Some (200, [''#!/bin/sh'', ''exit 0''])),
      sha256_hexdigest = (\<lambda>_. ''0f''), create_mode = 420,
      abspath = path_join ''/work'', strip_version = (\<lambda>v. v),
      LATEST_PACKAGE_ALIAS = ''*'', latest_pypi_version = (\<lambda>_. ''1.0'')\<rparr>"

definition ext_fail :: externals where
  "ext_fail = ext_ok\<lparr>run := (\<lambda>_ _. None)\<rparr>"

definition world0 :: world where
  "world0 = \<lparr>environ = [''PATH'' \<mapsto> ''/usr/bin''], files = Map.empty, trace = []\<rparr>"

definition world_ld :: world where
  "world_ld =
     \<lparr>environ = [''PATH'' \<mapsto> ''/usr/bin'', ''LD_LIBRARY_PATH'' \<mapsto> ''/opt/lib''],
      files = Map.empty, trace = []\<rparr>"

text \<open>
  A repository with one sound entry and three unsound ones: a link with the build method
  \<^verbatim>\<open>pip\<close>, a download without its destination, another name with \<^verbatim>\<open>cmake\<close>.
\<close>

definition repo_mixed :: repo where
  "repo_mixed =
     [''base'' \<mapsto> [''1'' \<mapsto> entry ''rsync'' None],
      ''tool'' \<mapsto> [''2'' \<mapsto> (entry ''pip'' None)\<lparr>k_url := Some ''https://example.org/tool''\<rparr>],
      ''fetch'' \<mapsto>
        [''3'' \<mapsto> (entry ''download'' None)
           \<lparr>k_url := Some ''https://example.org/fetch'', k_hash := Some ''sha256:0f''\<rparr>],
      ''named'' \<mapsto> [''4'' \<mapsto> (entry ''cmake'' None)\<lparr>k_pypi_package_name := Some ''Named''\<rparr>]]"

definition pkgs_mixed :: pkgs where
  "pkgs_mixed = [(''base'', ''1''), (''tool'', ''2''), (''fetch'', ''3''), (''named'', ''4'')]"

definition pkgs_two :: pkgs where
  "pkgs_two = [(''base'', ''1''), (''tool'', ''2'')]"

definition vars0 :: loop_vars where
  "vars0 =
     \<lparr>c_pkgs = pkgs_mixed, c_repo = repo_mixed, c_data = str_opt, c_prefix = ''/prog'',
      c_dlprefix = None, c_builddir = None, c_jobs = 1, c_cmk = ''cmake'', c_pip = ''pip'',
      c_virtualenv = None, c_fakeroot = ''/stage'',
      c_ld_lib_path = ''/stage/prog/lib:/stage/prog/lib64'', c_extra_makeopts = None,
      c_build_pythonpath = [], c_bin_path = ''/stage/prog/bin:/usr/bin''\<rparr>"

section \<open>Properties of the resolver\<close>

subsection \<open>Comprehensions\<close>

lemma traverse_Inr_iff:
  "traverse f xs = Some (Inr ys) \<longleftrightarrow> list_all2 (\<lambda>x y. f x = Some (Inr y)) xs ys"
proof (induction xs arbitrary: ys)
  case Nil
  show ?case by auto
next
  case (Cons x xs)
  show ?case
  proof (cases ys)
    case Nil
    then show ?thesis by (auto split: option.splits sum.splits)
  next
    case (Cons y ys')
    show ?thesis
    proof (cases "traverse f xs")
      case None
      with Cons.IH [of ys'] show ?thesis
        unfolding Cons by (auto split: option.splits sum.splits)
    next
      case (Some r)
      show ?thesis
      proof (cases r)
        case (Inl e)
        with Some Cons.IH [of ys'] show ?thesis
          unfolding Cons by (auto split: option.splits sum.splits)
      next
        case (Inr zs)
        with Some Cons.IH [of zs] Cons.IH [of ys'] show ?thesis
          unfolding Cons by (auto split: option.splits sum.splits)
      qed
    qed
  qed
qed

lemma traverse_Inl:
  "traverse f xs = Some (Inl e) \<Longrightarrow> \<exists>x \<in> set xs. f x = Some (Inl e)"
  by (induction xs) (auto split: option.splits sum.splits)

lemma traverse_diverges:
  "x \<in> set xs \<Longrightarrow> f x = None \<Longrightarrow> (\<And>y e. y \<in> set xs \<Longrightarrow> f y \<noteq> Some (Inl e))
     \<Longrightarrow> traverse f xs = None"
proof (induction xs)
  case Nil
  then show ?case by simp
next
  case (Cons a xs)
  show ?case
  proof (cases "f a")
    case None
    then show ?thesis by simp
  next
    case (Some r)
    with Cons.prems(2) have ax: "a \<noteq> x" by auto
    with Cons.prems(1) have "x \<in> set xs" by simp
    then have "traverse f xs = None"
      using Cons.prems(2,3) by (intro Cons.IH) auto
    moreover obtain y where "r = Inr y"
      using Some Cons.prems(3) [of a] by (cases r) auto
    ultimately show ?thesis using Some by simp
  qed
qed

subsection \<open>First occurrences and the order of dependencies\<close>










subsection \<open>What a call of dfs returns\<close>



lemma coveredD:
  "covered pkgs repo \<Longrightarrow> (p, v) \<in> set pkgs
     \<Longrightarrow> \<exists>versions current. repo p = Some versions \<and> versions v = Some current"
proof -
  assume "covered pkgs repo" and "(p, v) \<in> set pkgs"
  then have "case repo p of None \<Rightarrow> False | Some versions \<Rightarrow> versions v \<noteq> None"
    by (auto simp: covered_def list_all_iff)
  then show ?thesis by (cases "repo p") auto
qed

lemma dfs_no_KeyError:
  "covered pkgs repo \<Longrightarrow> map_of pkgs p = Some v \<Longrightarrow> dfs n p v pkgs repo \<noteq> Some (Inl (KeyError k))"
proof (induction n arbitrary: p v)
  case 0
  show ?case by simp
next
  case (Suc n)
  let ?g = "\<lambda>x. case map_of pkgs x of None \<Rightarrow> Some (Inl (KeyError x))
                 | Some v \<Rightarrow> dfs n x v pkgs repo"
  from Suc.prems have "(p, v) \<in> set pkgs" by (auto dest: map_of_SomeD)
  with Suc.prems(1) obtain versions current where
    r: "repo p = Some versions" and c: "versions v = Some current"
    using coveredD by blast
  show ?case
  proof
    assume a: "dfs (Suc n) p v pkgs repo = Some (Inl (KeyError k))"
    with r c obtain deps where dp: "k_depends current = Some deps"
      and all: "list_all (\<lambda>d. map_of pkgs d \<noteq> None) deps"
      and t: "traverse ?g deps = Some (Inl (KeyError k))"
      by (auto split: option.splits sum.splits if_splits)
    from traverse_Inl [OF t] obtain x where x: "x \<in> set deps" "?g x = Some (Inl (KeyError k))"
      by blast
    from all x(1) obtain vx where vx: "map_of pkgs x = Some vx"
      by (auto simp: list_all_iff)
    with x(2) have "dfs n x vx pkgs repo = Some (Inl (KeyError k))" by simp
    with Suc.IH [OF Suc.prems(1) vx] show False by simp
  qed
qed

lemma deps_requestedD:
  "deps_requested pkgs repo \<Longrightarrow> d \<in> set (deps_of pkgs repo p) \<Longrightarrow> \<exists>v. map_of pkgs d = Some v"
proof -
  assume a: "deps_requested pkgs repo" and d: "d \<in> set (deps_of pkgs repo p)"
  from d obtain v where "map_of pkgs p = Some v"
    by (cases "map_of pkgs p") (auto simp: deps_of_def)
  then have "(p, v) \<in> set pkgs" by (rule map_of_SomeD)
  with a d show ?thesis by (auto simp: deps_requested_def list_all_iff)
qed

lemma dfs_no_SystemExit:
  "deps_requested pkgs repo \<Longrightarrow> map_of pkgs p = Some v
     \<Longrightarrow> dfs n p v pkgs repo \<noteq> Some (Inl (SystemExit c m))"
proof (induction n arbitrary: p v)
  case 0
  show ?case by simp
next
  case (Suc n)
  let ?g = "\<lambda>x. case map_of pkgs x of None \<Rightarrow> Some (Inl (KeyError x))
                 | Some v \<Rightarrow> dfs n x v pkgs repo"
  show ?case
  proof
    assume a: "dfs (Suc n) p v pkgs repo = Some (Inl (SystemExit c m))"
    then obtain versions current deps where
      r: "repo p = Some versions" and cu: "versions v = Some current"
      and dp: "k_depends current = Some deps"
      by (auto split: option.splits)
    from Suc.prems(2) r cu dp have d: "deps_of pkgs repo p = deps" by (simp add: deps_of_def)
    have all: "list_all (\<lambda>d. map_of pkgs d \<noteq> None) deps"
      using deps_requestedD [OF Suc.prems(1), of _ p] d by (auto simp: list_all_iff)
    with a r cu dp have t: "traverse ?g deps = Some (Inl (SystemExit c m))"
      by (auto split: option.splits sum.splits)
    from traverse_Inl [OF t] obtain x where x: "x \<in> set deps" "?g x = Some (Inl (SystemExit c m))"
      by blast
    from all x(1) obtain vx where vx: "map_of pkgs x = Some vx"
      by (auto simp: list_all_iff)
    with x(2) have "dfs n x vx pkgs repo = Some (Inl (SystemExit c m))" by simp
    with Suc.IH [OF Suc.prems(1) vx] show False by simp
  qed
qed

lemma dfs_error_kinds:
  "dfs n p v pkgs repo = Some (Inl e) \<Longrightarrow>
     (\<exists>k. e = KeyError k) \<or>
     (\<exists>deps. e = SystemExit 1 (missing_msg deps) \<and> (\<exists>d \<in> set deps. map_of pkgs d = None))"
proof (induction n arbitrary: p v)
  case 0
  then show ?case by simp
next
  case (Suc n)
  let ?g = "\<lambda>x. case map_of pkgs x of None \<Rightarrow> Some (Inl (KeyError x))
                 | Some v \<Rightarrow> dfs n x v pkgs repo"
  show ?case
  proof (cases "\<exists>k. e = KeyError k")
    case True
    then show ?thesis by simp
  next
    case False
    show ?thesis
    proof (cases "\<exists>versions current deps. repo p = Some versions \<and> versions v = Some current
        \<and> k_depends current = Some deps \<and> \<not> list_all (\<lambda>d. map_of pkgs d \<noteq> None) deps")
      case True
      then obtain versions current deps where h: "repo p = Some versions"
        "versions v = Some current" "k_depends current = Some deps"
        "\<not> list_all (\<lambda>d. map_of pkgs d \<noteq> None) deps" by blast
      with Suc.prems have "e = SystemExit 1 (missing_msg deps)" by simp
      moreover from h(4) have "\<exists>d \<in> set deps. map_of pkgs d = None"
        by (auto simp: list_all_iff)
      ultimately show ?thesis by blast
    next
      case nm: False
      with Suc.prems False obtain deps where t: "traverse ?g deps = Some (Inl e)"
        by (auto split: option.splits sum.splits if_splits)
      from traverse_Inl [OF t] obtain x where x: "x \<in> set deps" "?g x = Some (Inl e)"
        by blast
      with False obtain vx where "dfs n x vx pkgs repo = Some (Inl e)"
        by (auto split: option.splits)
      then show ?thesis by (rule Suc.IH)
    qed
  qed
qed

subsection \<open>Acyclic graphs: the recursion ends\<close>

lemma traverse_stable:
  "(\<And>x. x \<in> set xs \<Longrightarrow> \<exists>N r. \<forall>n\<ge>N. g (n::nat) x = Some r)
     \<Longrightarrow> \<exists>N rs. \<forall>n\<ge>N. traverse (g n) xs = Some rs"
proof (induction xs)
  case Nil
  show ?case by simp
next
  case (Cons a xs)
  from Cons.prems [of a] obtain Na ra where a: "\<forall>n\<ge>Na. g n a = Some ra" by auto
  from Cons.IH Cons.prems obtain N rs where xs: "\<forall>n\<ge>N. traverse (g n) xs = Some rs"
    by auto
  let ?R = "case ra of Inl e \<Rightarrow> Inl e
            | Inr y \<Rightarrow> (case rs of Inl e \<Rightarrow> Inl e | Inr ys \<Rightarrow> Inr (y # ys))"
  have "\<forall>n\<ge>max Na N. traverse (g n) (a # xs) = Some ?R"
  proof (intro allI impI)
    fix n
    assume "max Na N \<le> n"
    then have "Na \<le> n" and "N \<le> n" by simp_all
    with a xs have "g n a = Some ra" and "traverse (g n) xs = Some rs" by blast+
    then show "traverse (g n) (a # xs) = Some ?R" by (simp split: sum.splits)
  qed
  then show ?case by blast
qed

lemma dfs_step_stable:
  assumes "\<And>versions current deps d vd.
      repo p = Some versions \<Longrightarrow> versions v = Some current \<Longrightarrow> k_depends current = Some deps
        \<Longrightarrow> d \<in> set deps \<Longrightarrow> map_of pkgs d = Some vd
        \<Longrightarrow> \<exists>N r. \<forall>n\<ge>N. dfs n d vd pkgs repo = Some r"
  shows "\<exists>N r. \<forall>n\<ge>N. dfs n p v pkgs repo = Some r"
proof -
  let ?g = "\<lambda>n x. case map_of pkgs x of None \<Rightarrow> Some (Inl (KeyError x))
                 | Some v \<Rightarrow> dfs n x v pkgs repo"
  have Suc_all: "(\<And>m. N \<le> m \<Longrightarrow> dfs (Suc m) p v pkgs repo = Some r)
      \<Longrightarrow> \<forall>n\<ge>Suc N. dfs n p v pkgs repo = Some r" for N r
  proof (intro allI impI)
    fix n
    assume h: "\<And>m. N \<le> m \<Longrightarrow> dfs (Suc m) p v pkgs repo = Some r" and n: "Suc N \<le> n"
    then obtain m where "n = Suc m" "N \<le> m" by (cases n) auto
    with h show "dfs n p v pkgs repo = Some r" by simp
  qed
  show ?thesis
  proof (cases "repo p")
    case None
    then have "\<forall>n\<ge>Suc 0. dfs n p v pkgs repo = Some (Inl (KeyError p))"
      by (intro Suc_all) simp
    then show ?thesis by blast
  next
    case r: (Some versions)
    show ?thesis
    proof (cases "versions v")
      case None
      with r have "\<forall>n\<ge>Suc 0. dfs n p v pkgs repo = Some (Inl (KeyError v))"
        by (intro Suc_all) simp
      then show ?thesis by blast
    next
      case c: (Some current)
      show ?thesis
      proof (cases "k_depends current")
        case None
        with r c have "\<forall>n\<ge>Suc 0. dfs n p v pkgs repo = Some (Inr [p])"
          by (intro Suc_all) simp
        then show ?thesis by blast
      next
        case d: (Some deps)
        show ?thesis
        proof (cases "list_all (\<lambda>d. map_of pkgs d \<noteq> None) deps")
          case False
          with r c d have "\<forall>n\<ge>Suc 0. dfs n p v pkgs repo
              = Some (Inl (SystemExit 1 (missing_msg deps)))"
            by (intro Suc_all) simp
          then show ?thesis by blast
        next
          case True
          have "\<exists>N r. \<forall>n\<ge>N. ?g n x = Some r" if "x \<in> set deps" for x
          proof (cases "map_of pkgs x")
            case None
            then show ?thesis by simp
          next
            case (Some vx)
            with assms [OF r c d that Some] show ?thesis by simp
          qed
          from traverse_stable [of deps ?g, OF this]
          obtain N rs where t: "\<forall>n\<ge>N. traverse (?g n) deps = Some rs" by blast
          let ?R = "case rs of Inl e \<Rightarrow> Inl e
                    | Inr dependencies \<Rightarrow> Inr (concat (dependencies @ [[p]]))"
          have "\<forall>n\<ge>Suc N. dfs n p v pkgs repo = Some ?R"
            using r c d True t by (intro Suc_all) (simp split: sum.splits)
          then show ?thesis by blast
        qed
      qed
    qed
  qed
qed

lemma finite_dep_graph: "finite (dep_graph pkgs repo)"
proof -
  have "dep_graph pkgs repo \<subseteq>
      fst ` set pkgs \<times> (\<Union>p \<in> fst ` set pkgs. set (deps_of pkgs repo p))"
  proof
    fix e
    assume "e \<in> dep_graph pkgs repo"
    then obtain p d where e: "e = (p, d)" and d: "d \<in> set (deps_of pkgs repo p)"
      by (auto simp: dep_graph_def)
    from d obtain v where "map_of pkgs p = Some v"
      by (cases "map_of pkgs p") (auto simp: deps_of_def)
    then have "(p, v) \<in> set pkgs" by (rule map_of_SomeD)
    then have "p \<in> fst ` set pkgs" by force
    with e d show "e \<in> fst ` set pkgs \<times> (\<Union>p \<in> fst ` set pkgs. set (deps_of pkgs repo p))"
      by auto
  qed
  then show ?thesis by (rule finite_subset) auto
qed

lemma dfs_terminates_requested:
  assumes "acyclic (dep_graph pkgs repo)"
  shows "map_of pkgs p = Some v \<Longrightarrow> \<exists>N r. \<forall>n\<ge>N. dfs n p v pkgs repo = Some r"
proof -
  have "wf ((dep_graph pkgs repo)\<inverse>)"
    using assms finite_dep_graph [of pkgs repo] by (simp add: finite_acyclic_wf)
  then show "map_of pkgs p = Some v \<Longrightarrow> \<exists>N r. \<forall>n\<ge>N. dfs n p v pkgs repo = Some r"
  proof (induction p arbitrary: v rule: wf_induct_rule)
    case (less p)
    show ?case
    proof (rule dfs_step_stable)
      fix versions current deps d vd
      assume "repo p = Some versions" "versions v = Some current"
        "k_depends current = Some deps" "d \<in> set deps" and vd: "map_of pkgs d = Some vd"
      with less.prems have "d \<in> set (deps_of pkgs repo p)" by (simp add: deps_of_def)
      then have "(d, p) \<in> (dep_graph pkgs repo)\<inverse>" by (simp add: dep_graph_def)
      from less.IH [OF this vd] show "\<exists>N r. \<forall>n\<ge>N. dfs n d vd pkgs repo = Some r" .
    qed
  qed
qed

lemma dfs_terminates:
  assumes "acyclic (dep_graph pkgs repo)"
  shows "\<exists>N r. \<forall>n\<ge>N. dfs n p v pkgs repo = Some r"
  by (rule dfs_step_stable) (rule dfs_terminates_requested [OF assms])

lemma packages_needed_terminates:
  assumes "acyclic (dep_graph pkgs repo)"
  shows "\<exists>N r. \<forall>n\<ge>N. packages_needed n pkgs repo = Some r"
proof -
  have "\<exists>N r. \<forall>n\<ge>N. (case x of (pkg, ver) \<Rightarrow> dfs n pkg ver pkgs repo) = Some r" for x
    using dfs_terminates [OF assms] by (cases x) simp
  from traverse_stable [of pkgs "\<lambda>n (pkg, ver). dfs n pkg ver pkgs repo", OF this]
  obtain N rs where "\<forall>n\<ge>N. traverse (\<lambda>(pkg, ver). dfs n pkg ver pkgs repo) pkgs = Some rs"
    by blast
  then have "\<forall>n\<ge>N. packages_needed n pkgs repo =
      Some (case rs of Inl e \<Rightarrow> Inl e | Inr outs \<Rightarrow> Inr (concat outs))"
    by (simp add: packages_needed_def split: sum.splits)
  then show ?thesis by blast
qed

lemma pkgorder_terminates:
  assumes "acyclic (dep_graph pkgs repo)"
  shows "\<exists>N r. \<forall>n\<ge>N. pkgorder n pkgs repo = Some r"
proof -
  from packages_needed_terminates [OF assms]
  obtain N r where "\<forall>n\<ge>N. packages_needed n pkgs repo = Some r" by blast
  then have "\<forall>n\<ge>N. pkgorder n pkgs repo =
      Some (case r of Inl e \<Rightarrow> Inl e | Inr needed \<Rightarrow> Inr (pkgorder_loop needed {} []))"
    by (simp add: pkgorder_def split: sum.splits)
  then show ?thesis by blast
qed

subsection \<open>Cycles, and the plan as a whole\<close>

lemma dfs_no_error:
  assumes "covered pkgs repo" and "deps_requested pkgs repo" and "map_of pkgs p = Some v"
  shows "dfs n p v pkgs repo \<noteq> Some (Inl e)"
proof
  assume a: "dfs n p v pkgs repo = Some (Inl e)"
  from dfs_error_kinds [OF a] show False
    using a dfs_no_KeyError [OF assms(1,3)] dfs_no_SystemExit [OF assms(2,3)] by auto
qed

lemma dfs_cycle_diverges:
  assumes cov: "covered pkgs repo" and req: "deps_requested pkgs repo"
  shows "map_of pkgs p = Some v \<Longrightarrow> (p, p) \<in> (dep_graph pkgs repo)\<^sup>+
     \<Longrightarrow> dfs n p v pkgs repo = None"
proof (induction n arbitrary: p v)
  case 0
  show ?case by simp
next
  case (Suc n)
  let ?g = "\<lambda>x. case map_of pkgs x of None \<Rightarrow> Some (Inl (KeyError x))
                 | Some v \<Rightarrow> dfs n x v pkgs repo"
  from tranclD [OF Suc.prems(2)] obtain q where
    pq: "(p, q) \<in> dep_graph pkgs repo" and qp: "(q, p) \<in> (dep_graph pkgs repo)\<^sup>*"
    by blast
  from qp pq have qq: "(q, q) \<in> (dep_graph pkgs repo)\<^sup>+" by (rule rtrancl_into_trancl1)
  from pq have qd: "q \<in> set (deps_of pkgs repo p)" by (simp add: dep_graph_def)
  from Suc.prems(1) have "(p, v) \<in> set pkgs" by (rule map_of_SomeD)
  from coveredD [OF cov this] obtain versions current where
    r: "repo p = Some versions" and c: "versions v = Some current" by blast
  from qd Suc.prems(1) r c obtain deps where d: "k_depends current = Some deps"
    and dp: "deps_of pkgs repo p = deps"
    by (cases "k_depends current") (auto simp: deps_of_def)
  have all: "list_all (\<lambda>d. map_of pkgs d \<noteq> None) deps"
    using deps_requestedD [OF req, of _ p] dp by (auto simp: list_all_iff)
  from deps_requestedD [OF req qd] obtain vq where vq: "map_of pkgs q = Some vq" by blast
  from Suc.IH [OF vq qq] vq have 1: "?g q = None" by simp
  have 2: "?g y \<noteq> Some (Inl e)" if "y \<in> set deps" for y e
  proof -
    from all that obtain vy where vy: "map_of pkgs y = Some vy"
      by (auto simp: list_all_iff)
    with dfs_no_error [OF cov req vy] show ?thesis by simp
  qed
  from qd dp have "q \<in> set deps" by simp
  from traverse_diverges [of q deps ?g, OF this 1 2]
  have "traverse ?g deps = None" by blast
  with r c d all show ?case by simp
qed

lemma traverse_roots_Inl:
  "pkgorder n pkgs repo = Some (Inl e) \<Longrightarrow> \<exists>(p, v) \<in> set pkgs. dfs n p v pkgs repo = Some (Inl e)"
proof -
  assume "pkgorder n pkgs repo = Some (Inl e)"
  then have "traverse (\<lambda>(pkg, ver). dfs n pkg ver pkgs repo) pkgs = Some (Inl e)"
    by (auto simp: pkgorder_def packages_needed_def split: option.splits sum.splits)
  from traverse_Inl [OF this] show ?thesis by auto
qed

lemma pkgorder_Inr_roots:
  assumes "pkgorder n pkgs repo = Some (Inr plan)" and "(p, v) \<in> set pkgs"
  shows "\<exists>out. dfs n p v pkgs repo = Some (Inr out)"
proof -
  from assms(1) obtain outs where
    "traverse (\<lambda>(pkg, ver). dfs n pkg ver pkgs repo) pkgs = Some (Inr outs)"
    by (auto simp: pkgorder_def packages_needed_def split: option.splits sum.splits)
  then have "list_all2 (\<lambda>x y. (case x of (pkg, ver) \<Rightarrow> dfs n pkg ver pkgs repo) = Some (Inr y))
      pkgs outs"
    by (simp add: traverse_Inr_iff)
  with assms(2) show ?thesis
    by (auto simp: list_all2_conv_all_nth in_set_conv_nth split: prod.splits)
qed

lemma pkgorder_cycle_diverges:
  assumes dist: "distinct (map fst pkgs)" and cov: "covered pkgs repo"
    and req: "deps_requested pkgs repo" and cyc: "\<not> acyclic (dep_graph pkgs repo)"
  shows "pkgorder n pkgs repo = None"
proof -
  from cyc obtain p where pp: "(p, p) \<in> (dep_graph pkgs repo)\<^sup>+"
    by (auto simp: acyclic_def)
  from tranclD [OF pp] obtain q where "q \<in> set (deps_of pkgs repo p)"
    by (auto simp: dep_graph_def)
  then obtain v where v: "map_of pkgs p = Some v"
    by (cases "map_of pkgs p") (auto simp: deps_of_def)
  then have mem: "(p, v) \<in> set pkgs" by (rule map_of_SomeD)
  let ?f = "\<lambda>(pkg, ver). dfs n pkg ver pkgs repo"
  from dfs_cycle_diverges [OF cov req v pp] have 1: "?f (p, v) = None" by simp
  have 2: "?f y \<noteq> Some (Inl e)" if "y \<in> set pkgs" for y e
  proof -
    obtain q vq where y: "y = (q, vq)" by (cases y)
    with that dist have "map_of pkgs q = Some vq" by simp
    from dfs_no_error [OF cov req this] y show ?thesis by simp
  qed
  from traverse_diverges [of "(p, v)" pkgs ?f, OF mem 1 2]
  have "traverse ?f pkgs = None" by blast
  then show ?thesis by (simp add: pkgorder_def packages_needed_def)
qed





lemma join_contains: "d \<in> set xs \<Longrightarrow> \<exists>a b. join sep xs = a @ d @ b"
proof (induction sep xs rule: join.induct)
  case (1 sep)
  then show ?case by simp
next
  case (2 sep x)
  then have "join sep [x] = [] @ d @ []" by simp
  then show ?case by blast
next
  case (3 sep x y ys)
  show ?case
  proof (cases "d = x")
    case True
    then have "join sep (x # y # ys) = [] @ d @ (sep @ join sep (y # ys))" by simp
    then show ?thesis by blast
  next
    case False
    with 3 obtain a b where "join sep (y # ys) = a @ d @ b" by auto
    then have "join sep (x # y # ys) = (x @ sep @ a) @ d @ b" by simp
    then show ?thesis by blast
  qed
qed

lemma missing_msg_contains: "d \<in> set deps \<Longrightarrow> \<exists>a b. missing_msg deps = a @ d @ b"
proof -
  assume "d \<in> set deps"
  from join_contains [OF this, of "'',''"] obtain a b where "join '','' deps = a @ d @ b"
    by blast
  then have "missing_msg deps = (''error: '' @ a) @ d
      @ (b @ '' required as dependency, is not in distribution'')"
    by (simp add: missing_msg_def)
  then show ?thesis by blast
qed

subsection \<open>The graphs of the concrete requested sets\<close>

lemma acyclic_ok: "acyclic (dep_graph pkgs_ok repo_ok)"
proof (rule acyclicI_order)
  fix a b
  assume "(a, b) \<in> dep_graph pkgs_ok repo_ok"
  then show "(if b = ''app'' then 2 else if b = ''lib'' then 1 else (0::nat))
      < (if a = ''app'' then 2 else if a = ''lib'' then 1 else 0)"
    by (auto simp: dep_graph_def deps_of_def pkgs_ok_def repo_ok_def entry_def
        split: if_splits option.splits)
qed

lemma cyclic_example: "\<not> acyclic (dep_graph pkgs_cyclic repo_cyclic)"
proof -
  have "(''a'', ''b'') \<in> dep_graph pkgs_cyclic repo_cyclic"
    and "(''b'', ''a'') \<in> dep_graph pkgs_cyclic repo_cyclic"
    by (simp_all add: dep_graph_def deps_of_def pkgs_cyclic_def repo_cyclic_def entry_def)
  then have "(''a'', ''a'') \<in> (dep_graph pkgs_cyclic repo_cyclic)\<^sup>+" by auto
  then show ?thesis by (auto simp: acyclic_def)
qed

lemma acyclic_runner: "acyclic (dep_graph pkgs_runner repo_runner)"
proof (rule acyclicI_order)
  fix a b
  assume "(a, b) \<in> dep_graph pkgs_runner repo_runner"
  then show "(if b = ''pytest-runner'' then 1 else (0::nat))
      < (if a = ''pytest-runner'' then 1 else 0)"
    by (auto simp: dep_graph_def deps_of_def pkgs_runner_def repo_runner_def entry_def
        split: if_splits option.splits)
qed

lemma acyclic_unlisted: "acyclic (dep_graph pkgs_unlisted repo_unlisted)"
proof (rule acyclicI_order)
  fix a b
  assume "(a, b) \<in> dep_graph pkgs_unlisted repo_unlisted"
  then show "(if b = ''b'' then 1 else (0::nat)) < (if a = ''b'' then 1 else 0)"
    by (auto simp: dep_graph_def deps_of_def pkgs_unlisted_def repo_unlisted_def entry_def
        split: if_splits option.splits)
qed

section \<open>The resolver: the claims\<close>



text \<open>
  Claim C9. When the dependency graph of the requested packages is acyclic, every call of
  \<^verbatim>\<open>dfs\<close> and the whole resolution return (a plan or an error) for every bound on
  the depth of the recursion that is large enough. When the graph has a cycle, every
  declared dependency is requested and every requested package has an entry in the
  repository, the resolution returns for no bound: the call of \<^verbatim>\<open>dfs\<close> for some
  requested package recurses without end.
\<close>

theorem dfs_termination:
  "(acyclic (dep_graph pkgs repo) \<longrightarrow>
      (\<forall>p v. \<exists>N r. \<forall>n\<ge>N. dfs n p v pkgs repo = Some r) \<and>
      (\<exists>N r. \<forall>n\<ge>N. pkgorder n pkgs repo = Some r)) \<and>
   (\<not> acyclic (dep_graph pkgs repo) \<and> distinct (map fst pkgs) \<and> covered pkgs repo
      \<and> deps_requested pkgs repo \<longrightarrow>
      (\<forall>n. pkgorder n pkgs repo = None) \<and>
      (\<exists>p v. (p, v) \<in> set pkgs \<and> (\<forall>n. dfs n p v pkgs repo = None)))"
proof (intro conjI impI allI)
  fix p v
  assume "acyclic (dep_graph pkgs repo)"
  then show "\<exists>N r. \<forall>n\<ge>N. dfs n p v pkgs repo = Some r" by (rule dfs_terminates)
next
  assume "acyclic (dep_graph pkgs repo)"
  then show "\<exists>N r. \<forall>n\<ge>N. pkgorder n pkgs repo = Some r" by (rule pkgorder_terminates)
next
  fix n
  assume "\<not> acyclic (dep_graph pkgs repo) \<and> distinct (map fst pkgs) \<and> covered pkgs repo
      \<and> deps_requested pkgs repo"
  then show "pkgorder n pkgs repo = None" by (simp add: pkgorder_cycle_diverges)
next
  assume a: "\<not> acyclic (dep_graph pkgs repo) \<and> distinct (map fst pkgs) \<and> covered pkgs repo
      \<and> deps_requested pkgs repo"
  then obtain p where pp: "(p, p) \<in> (dep_graph pkgs repo)\<^sup>+"
    by (auto simp: acyclic_def)
  from tranclD [OF pp] obtain q where "q \<in> set (deps_of pkgs repo p)"
    by (auto simp: dep_graph_def)
  then obtain v where v: "map_of pkgs p = Some v"
    by (cases "map_of pkgs p") (auto simp: deps_of_def)
  then have "(p, v) \<in> set pkgs" by (rule map_of_SomeD)
  moreover have "\<forall>n. dfs n p v pkgs repo = None"
    using a dfs_cycle_diverges [OF _ _ v pp] by blast
  ultimately show "\<exists>p v. (p, v) \<in> set pkgs \<and> (\<forall>n. dfs n p v pkgs repo = None)" by blast
qed

theorem dfs_termination_witness:
  "(\<exists>N r. \<forall>n\<ge>N. pkgorder n pkgs_ok repo_ok = Some r) \<and>
   (\<forall>n. pkgorder n pkgs_cyclic repo_cyclic = None)"
proof -
  have "\<not> acyclic (dep_graph pkgs_cyclic repo_cyclic)" by (rule cyclic_example)
  moreover have "distinct (map fst pkgs_cyclic)" by (simp add: pkgs_cyclic_def)
  moreover have "covered pkgs_cyclic repo_cyclic"
    by (simp add: covered_def pkgs_cyclic_def repo_cyclic_def)
  moreover have "deps_requested pkgs_cyclic repo_cyclic"
    by (simp add: deps_requested_def deps_of_def pkgs_cyclic_def repo_cyclic_def entry_def)
  ultimately have "\<forall>n. pkgorder n pkgs_cyclic repo_cyclic = None"
    using dfs_termination [of pkgs_cyclic repo_cyclic] by blast
  moreover have "\<exists>N r. \<forall>n\<ge>N. pkgorder n pkgs_ok repo_ok = Some r"
    using dfs_termination [of pkgs_ok repo_ok] acyclic_ok by blast
  ultimately show ?thesis by blast
qed

text \<open>
  Claim C2, as amended. Let a requested package have an entry in the repository at its
  requested version that declares a dependency which is not requested. Then the resolution
  never returns a build plan, and the call of \<^verbatim>\<open>dfs\<close> for that package exits with
  status 1 after printing a message that lists its dependencies, the missing one among
  them. An error that ends the resolution is a \<^verbatim>\<open>KeyError\<close> (a requested package with
  no entry in the repository, met earlier) or that exit for a package with a dependency
  that is not requested. When the graph is acyclic and every requested package has an
  entry in the repository, the resolution ends with that exit.
\<close>

theorem missing_dependency_no_plan:
  assumes root: "(p, v) \<in> set pkgs" and r: "repo p = Some versions"
    and c: "versions v = Some current" and dp: "k_depends current = Some deps"
    and d: "d \<in> set deps" and absent: "map_of pkgs d = None"
  shows "(\<forall>n plan. pkgorder n pkgs repo \<noteq> Some (Inr plan)) \<and>
         (\<forall>n. dfs (Suc n) p v pkgs repo = Some (Inl (SystemExit 1 (missing_msg deps)))) \<and>
         (\<exists>a b. missing_msg deps = a @ d @ b) \<and>
         (\<forall>n e. pkgorder n pkgs repo = Some (Inl e) \<longrightarrow>
            (\<exists>k. e = KeyError k) \<or>
            (\<exists>deps'. e = SystemExit 1 (missing_msg deps')
               \<and> (\<exists>d' \<in> set deps'. map_of pkgs d' = None))) \<and>
         (acyclic (dep_graph pkgs repo) \<and> covered pkgs repo \<longrightarrow>
            (\<exists>N deps'. (\<forall>n\<ge>N. pkgorder n pkgs repo = Some (Inl (SystemExit 1 (missing_msg deps'))))
               \<and> (\<exists>d' \<in> set deps'. map_of pkgs d' = None \<and> (\<exists>a b. missing_msg deps' = a @ d' @ b))))"
proof -
  from d absent have nall: "\<not> list_all (\<lambda>d. map_of pkgs d \<noteq> None) deps"
    by (auto simp: list_all_iff)
  have exit: "dfs (Suc n) p v pkgs repo = Some (Inl (SystemExit 1 (missing_msg deps)))" for n
    using r c dp nall by simp
  have noplan: "pkgorder n pkgs repo \<noteq> Some (Inr plan)" for n plan
  proof
    assume "pkgorder n pkgs repo = Some (Inr plan)"
    from pkgorder_Inr_roots [OF this root] obtain out where
      out: "dfs n p v pkgs repo = Some (Inr out)" by blast
    show False
    proof (cases n)
      case 0
      with out show False by simp
    next
      case (Suc m)
      with out exit [of m] show False by simp
    qed
  qed
  have kinds: "(\<exists>k. e = KeyError k) \<or>
      (\<exists>deps'. e = SystemExit 1 (missing_msg deps')
         \<and> (\<exists>d' \<in> set deps'. map_of pkgs d' = None))"
    if "pkgorder n pkgs repo = Some (Inl e)" for n e
  proof -
    from traverse_roots_Inl [OF that] obtain q vq where
      "dfs n q vq pkgs repo = Some (Inl e)" by blast
    then show ?thesis by (rule dfs_error_kinds)
  qed
  have final: "\<exists>N deps'. (\<forall>n\<ge>N. pkgorder n pkgs repo = Some (Inl (SystemExit 1 (missing_msg deps'))))
      \<and> (\<exists>d' \<in> set deps'. map_of pkgs d' = None \<and> (\<exists>a b. missing_msg deps' = a @ d' @ b))"
    if acyc: "acyclic (dep_graph pkgs repo)" and cov: "covered pkgs repo"
  proof -
    from pkgorder_terminates [OF acyc] obtain N r where
      N: "\<forall>n\<ge>N. pkgorder n pkgs repo = Some r" by blast
    then have rN: "pkgorder N pkgs repo = Some r" by simp
    with noplan [of N] obtain e where e: "r = Inl e" by (cases r) auto
    from traverse_roots_Inl [of N pkgs repo e] rN e obtain q vq where
      q: "(q, vq) \<in> set pkgs" and qe: "dfs N q vq pkgs repo = Some (Inl e)" by blast
    have "e \<noteq> KeyError k" for k
    proof
      assume k: "e = KeyError k"
      from qe obtain M where M: "N = Suc M" by (cases N) auto
      from coveredD [OF cov q] obtain versions' current' where
        r': "repo q = Some versions'" and c': "versions' vq = Some current'" by blast
      let ?g = "\<lambda>x. case map_of pkgs x of None \<Rightarrow> Some (Inl (KeyError x))
                 | Some v \<Rightarrow> dfs M x v pkgs repo"
      from qe [unfolded M k] r' c' obtain deps' where
        all: "list_all (\<lambda>d. map_of pkgs d \<noteq> None) deps'"
        and t: "traverse ?g deps' = Some (Inl (KeyError k))"
        by (auto split: option.splits sum.splits if_splits)
      from traverse_Inl [OF t] obtain x where x: "x \<in> set deps'"
        "?g x = Some (Inl (KeyError k))" by blast
      from all x(1) obtain vx where vx: "map_of pkgs x = Some vx"
        by (auto simp: list_all_iff)
      with x(2) have "dfs M x vx pkgs repo = Some (Inl (KeyError k))" by simp
      with dfs_no_KeyError [OF cov vx] show False by blast
    qed
    with dfs_error_kinds [OF qe] obtain deps' d' where
      "e = SystemExit 1 (missing_msg deps')" "d' \<in> set deps'" "map_of pkgs d' = None"
      by blast
    with N e missing_msg_contains [of d' deps'] show ?thesis by blast
  qed
  from noplan exit missing_msg_contains [OF d] kinds final show ?thesis by blast
qed

theorem missing_dependency_no_plan_witness:
  "pkgorder 2 pkgs_runner repo_runner
     = Some (Inl (SystemExit 1
         ''error: wheel,setuptools,python required as dependency, is not in distribution'')) \<and>
   pkgorder 2 pkgs_runner repo_runner \<noteq> Some (Inr [''pytest-runner'']) \<and>
   (\<exists>a b. missing_msg [''wheel'', ''setuptools'', ''python''] = a @ ''setuptools'' @ b) \<and>
   (\<exists>N deps'. \<forall>n\<ge>N. pkgorder n pkgs_runner repo_runner
      = Some (Inl (SystemExit 1 (missing_msg deps'))))"
proof -
  have root: "(''pytest-runner'', ''6.0.0'') \<in> set pkgs_runner" by (simp add: pkgs_runner_def)
  have r: "repo_runner ''pytest-runner''
      = Some [''6.0.0'' \<mapsto> entry ''pip'' (Some [''wheel'', ''setuptools'', ''python''])]"
    by (simp add: repo_runner_def)
  have c: "[''6.0.0'' \<mapsto> entry ''pip'' (Some [''wheel'', ''setuptools'', ''python''])] ''6.0.0''
      = Some (entry ''pip'' (Some [''wheel'', ''setuptools'', ''python'']))" by simp
  have dp: "k_depends (entry ''pip'' (Some [''wheel'', ''setuptools'', ''python'']))
      = Some [''wheel'', ''setuptools'', ''python'']" by (simp add: entry_def)
  have d: "''setuptools'' \<in> set [''wheel'', ''setuptools'', ''python'']" by simp
  have absent: "map_of pkgs_runner ''setuptools'' = None" by (simp add: pkgs_runner_def)
  have cov: "covered pkgs_runner repo_runner"
    by (simp add: covered_def pkgs_runner_def repo_runner_def)
  note th = missing_dependency_no_plan
    [where p = "''pytest-runner''" and v = "''6.0.0''" and pkgs = pkgs_runner
       and repo = repo_runner
       and versions = "[''6.0.0'' \<mapsto> entry ''pip'' (Some [''wheel'', ''setuptools'', ''python''])]"
       and current = "entry ''pip'' (Some [''wheel'', ''setuptools'', ''python''])"
       and deps = "[''wheel'', ''setuptools'', ''python'']" and d = "''setuptools''",
     OF root r c dp d absent]
  have run: "pkgorder 2 pkgs_runner repo_runner
     = Some (Inl (SystemExit 1
         ''error: wheel,setuptools,python required as dependency, is not in distribution''))"
    by code_simp
  moreover from th have "pkgorder 2 pkgs_runner repo_runner \<noteq> Some (Inr [''pytest-runner''])"
    by blast
  moreover from th
  have "\<exists>a b. missing_msg [''wheel'', ''setuptools'', ''python''] = a @ ''setuptools'' @ b"
    by blast
  moreover from th acyclic_runner cov
  have "\<exists>N deps'. \<forall>n\<ge>N. pkgorder n pkgs_runner repo_runner
      = Some (Inl (SystemExit 1 (missing_msg deps')))" by blast
  ultimately show ?thesis by blast
qed

text \<open>
  The claim as it was stated fails when a requested package without an entry in the
  repository is met first: the resolution ends with a \<^verbatim>\<open>KeyError\<close>, which names no
  dependency.
\<close>

theorem missing_dependency_counterexample:
  "(''pytest-runner'', ''6.0.0'') \<in> set pkgs_ghost \<and>
   deps_of pkgs_ghost repo_runner ''pytest-runner'' = [''wheel'', ''setuptools'', ''python''] \<and>
   map_of pkgs_ghost ''wheel'' = None \<and>
   pkgorder 2 pkgs_ghost repo_runner = Some (Inl (KeyError ''ghost''))"
  by (simp add: pkgs_ghost_def repo_runner_def deps_of_def entry_def pkgorder_def
      packages_needed_def numeral_2_eq_2)

text \<open>
  Claim C10, as amended. Let a requested package declare a dependency that is requested,
  and let the repository have no entry for that dependency at its requested version.
  Then the call of \<^verbatim>\<open>dfs\<close> for the dependency raises \<^verbatim>\<open>KeyError\<close> (for the name when
  the repository does not know the package, for the version otherwise), and neither the
  call for the declaring package nor the resolution returns a list. When every declared
  dependency of a requested package is requested and the graph is acyclic, the resolution
  ends with a \<^verbatim>\<open>KeyError\<close>.
\<close>

theorem missing_repo_entry:
  assumes root: "(p, v) \<in> set pkgs" and r: "repo p = Some versions"
    and c: "versions v = Some current" and dp: "k_depends current = Some deps"
    and d: "d \<in> set deps" and vd: "map_of pkgs d = Some vd"
    and absent: "(case repo d of None \<Rightarrow> True | Some versions' \<Rightarrow> versions' vd = None)"
  shows "(\<forall>n. dfs (Suc n) d vd pkgs repo
            = Some (Inl (KeyError (if repo d = None then d else vd)))) \<and>
         (\<forall>n out. dfs n p v pkgs repo \<noteq> Some (Inr out)) \<and>
         (\<forall>n plan. pkgorder n pkgs repo \<noteq> Some (Inr plan)) \<and>
         (distinct (map fst pkgs) \<and> acyclic (dep_graph pkgs repo) \<and> deps_requested pkgs repo
            \<longrightarrow> (\<exists>N k. \<forall>n\<ge>N. pkgorder n pkgs repo = Some (Inl (KeyError k))))"
proof -
  have key: "dfs (Suc n) d vd pkgs repo
      = Some (Inl (KeyError (if repo d = None then d else vd)))" for n
    using absent by (cases "repo d") auto
  have nolist: "dfs n d vd pkgs repo \<noteq> Some (Inr out)" for n out
    using key by (cases n) auto
  have nop: "dfs n p v pkgs repo \<noteq> Some (Inr out)" for n out
  proof
    assume a: "dfs n p v pkgs repo = Some (Inr out)"
    then obtain m where n: "n = Suc m" by (cases n) auto
    let ?g = "\<lambda>x. case map_of pkgs x of None \<Rightarrow> Some (Inl (KeyError x))
                 | Some v \<Rightarrow> dfs m x v pkgs repo"
    from a [unfolded n] r c dp obtain dependencies where
      "traverse ?g deps = Some (Inr dependencies)"
      by (auto split: option.splits sum.splits if_splits)
    then have "list_all2 (\<lambda>x y. ?g x = Some (Inr y)) deps dependencies"
      by (simp add: traverse_Inr_iff)
    with d obtain y where "?g d = Some (Inr y)"
      by (auto simp: list_all2_conv_all_nth in_set_conv_nth)
    with vd nolist show False by simp
  qed
  have noplan: "pkgorder n pkgs repo \<noteq> Some (Inr plan)" for n plan
  proof
    assume "pkgorder n pkgs repo = Some (Inr plan)"
    from pkgorder_Inr_roots [OF this root] nop show False by blast
  qed
  have final: "\<exists>N k. \<forall>n\<ge>N. pkgorder n pkgs repo = Some (Inl (KeyError k))"
    if dist: "distinct (map fst pkgs)" and acyc: "acyclic (dep_graph pkgs repo)"
      and req: "deps_requested pkgs repo"
  proof -
    from pkgorder_terminates [OF acyc] obtain N r where
      N: "\<forall>n\<ge>N. pkgorder n pkgs repo = Some r" by blast
    then have rN: "pkgorder N pkgs repo = Some r" by simp
    with noplan [of N] obtain e where e: "r = Inl e" by (cases r) auto
    from traverse_roots_Inl [of N pkgs repo e] rN e obtain q vq where
      q: "(q, vq) \<in> set pkgs" and qe: "dfs N q vq pkgs repo = Some (Inl e)" by blast
    from q dist have "map_of pkgs q = Some vq" by simp
    from dfs_no_SystemExit [OF req this] qe dfs_error_kinds [OF qe]
    obtain k where "e = KeyError k" by auto
    with N e show ?thesis by blast
  qed
  from key nop noplan final show ?thesis by blast
qed

theorem missing_repo_entry_witness:
  "dfs (Suc 0) ''c'' ''1'' pkgs_unlisted repo_unlisted = Some (Inl (KeyError ''c'')) \<and>
   pkgorder 3 pkgs_unlisted repo_unlisted = Some (Inl (KeyError ''c'')) \<and>
   (\<exists>N k. \<forall>n\<ge>N. pkgorder n pkgs_unlisted repo_unlisted = Some (Inl (KeyError k)))"
proof -
  have root: "(''b'', ''1'') \<in> set pkgs_unlisted" by (simp add: pkgs_unlisted_def)
  have r: "repo_unlisted ''b'' = Some [''1'' \<mapsto> entry ''noop'' (Some [''c''])]"
    by (simp add: repo_unlisted_def)
  have c: "[''1'' \<mapsto> entry ''noop'' (Some [''c''])] ''1'' = Some (entry ''noop'' (Some [''c'']))"
    by simp
  have dp: "k_depends (entry ''noop'' (Some [''c''])) = Some [''c'']" by (simp add: entry_def)
  have d: "''c'' \<in> set [''c'']" by simp
  have vd: "map_of pkgs_unlisted ''c'' = Some ''1''" by (simp add: pkgs_unlisted_def)
  have absent: "(case repo_unlisted ''c'' of None \<Rightarrow> True | Some versions' \<Rightarrow> versions' ''1'' = None)"
    by (simp add: repo_unlisted_def)
  have none: "repo_unlisted ''c'' = None" by (simp add: repo_unlisted_def)
  have dist: "distinct (map fst pkgs_unlisted)" by (simp add: pkgs_unlisted_def)
  have req: "deps_requested pkgs_unlisted repo_unlisted"
    by (simp add: deps_requested_def deps_of_def pkgs_unlisted_def repo_unlisted_def entry_def)
  note th = missing_repo_entry
    [where p = "''b''" and v = "''1''" and pkgs = pkgs_unlisted and repo = repo_unlisted
       and versions = "[''1'' \<mapsto> entry ''noop'' (Some [''c''])]"
       and current = "entry ''noop'' (Some [''c''])" and deps = "[''c'']" and d = "''c''"
       and vd = "''1''",
     OF root r c dp d vd absent]
  from th none have "dfs (Suc 0) ''c'' ''1'' pkgs_unlisted repo_unlisted
      = Some (Inl (KeyError ''c''))" by simp
  moreover have "pkgorder 3 pkgs_unlisted repo_unlisted = Some (Inl (KeyError ''c''))"
    by code_simp
  moreover from th dist acyclic_unlisted req
  have "\<exists>N k. \<forall>n\<ge>N. pkgorder n pkgs_unlisted repo_unlisted = Some (Inl (KeyError k))"
    by blast
  ultimately show ?thesis by blast
qed

text \<open>
  The claim as it was stated fails when another requested package, met first, declares a
  dependency that is not requested: the resolution ends with the diagnostic exit.
\<close>

theorem missing_repo_entry_counterexample:
  "(''b'', ''1'') \<in> set pkgs_both \<and>
   deps_of pkgs_both repo_both ''b'' = [''c''] \<and>
   map_of pkgs_both ''c'' = Some ''1'' \<and>
   repo_both ''c'' = None \<and>
   pkgorder 2 pkgs_both repo_both
     = Some (Inl (SystemExit 1
         ''error: zzz required as dependency, is not in distribution''))"
  by (simp add: pkgs_both_def repo_both_def deps_of_def entry_def pkgorder_def
      packages_needed_def missing_msg_def numeral_2_eq_2)

section \<open>The compile strategy and the environment\<close>

text \<open>
  Claim C3, as amended. Take a call of \<^verbatim>\<open>cmake\<close> with both search paths given. When
  it returns, the executable search path \<^verbatim>\<open>PATH\<close> has its prior value again, and when
  the library search path \<^verbatim>\<open>LD_LIBRARY_PATH\<close> was unset before the call the whole
  environment is as it was. Nothing is restored when the call raises: after a failed
  external command both variables keep the values that the call gave them; when
  \<^verbatim>\<open>PATH\<close> is unset the call raises \<^verbatim>\<open>KeyError\<close> with the library search path
  already set; only when the build directory cannot be made is the environment
  untouched.
\<close>

theorem cmake_environ:
  assumes "cmake ext package_name ver pkgpath prefix builddir mkopts jobs fakeroot (Some l) (Some b)
      cmake_exe w = (r, w')"
  shows "(r = Inr () \<longrightarrow> environ w' ''PATH'' = environ w ''PATH''
            \<and> (environ w ''LD_LIBRARY_PATH'' = None \<longrightarrow> environ w' = environ w)) \<and>
         (\<forall>d. r = Inl (OSError d) \<longrightarrow> environ w' = environ w) \<and>
         (\<forall>k. r = Inl (KeyError k) \<longrightarrow> environ w' = (environ w)(''LD_LIBRARY_PATH'' \<mapsto> l)) \<and>
         (\<forall>c. r = Inl (ShellError c) \<longrightarrow>
            environ w' = (environ w)(''LD_LIBRARY_PATH'' \<mapsto> l, ''PATH'' \<mapsto> b))"
  using assms
  by (auto simp: cmake_def Let_def seq_def shell_def mkdir_def setenv_def getenv_def delenv_def
      emit_def fun_upd_twist
      split: option.splits if_splits prod.splits sum.splits)

lemma cmake_ok_run:
  "fst (cmake ext_ok ''zlib'' ''1.2'' ''/work/zlib-1.2'' ''/prog'' None '''' 4 ''/stage''
     (Some ''/stage/prog/lib'') (Some ''/stage/prog/bin:/usr/bin'') ''cmake'' world0) = Inr ()"
  by (simp add: cmake_def Let_def seq_def shell_def mkdir_def setenv_def getenv_def delenv_def
      emit_def ext_ok_def world0_def)

lemma cmake_fail_run:
  "\<exists>c. fst (cmake ext_fail ''zlib'' ''1.2'' ''/work/zlib-1.2'' ''/prog'' None '''' 4 ''/stage''
     (Some ''/stage/prog/lib'') (Some ''/stage/prog/bin:/usr/bin'') ''cmake'' world0)
     = Inl (ShellError c)"
  by (simp add: cmake_def Let_def seq_def shell_def mkdir_def setenv_def getenv_def delenv_def
      emit_def ext_ok_def ext_fail_def world0_def)

theorem cmake_environ_witness:
  "environ (snd (cmake ext_ok ''zlib'' ''1.2'' ''/work/zlib-1.2'' ''/prog'' None '''' 4 ''/stage''
     (Some ''/stage/prog/lib'') (Some ''/stage/prog/bin:/usr/bin'') ''cmake'' world0))
     = environ world0 \<and>
   environ (snd (cmake ext_fail ''zlib'' ''1.2'' ''/work/zlib-1.2'' ''/prog'' None '''' 4 ''/stage''
     (Some ''/stage/prog/lib'') (Some ''/stage/prog/bin:/usr/bin'') ''cmake'' world0))
     = (environ world0)(''LD_LIBRARY_PATH'' \<mapsto> ''/stage/prog/lib'',
          ''PATH'' \<mapsto> ''/stage/prog/bin:/usr/bin'')"
proof -
  let ?ok = "cmake ext_ok ''zlib'' ''1.2'' ''/work/zlib-1.2'' ''/prog'' None '''' 4 ''/stage''
     (Some ''/stage/prog/lib'') (Some ''/stage/prog/bin:/usr/bin'') ''cmake'' world0"
  let ?fail = "cmake ext_fail ''zlib'' ''1.2'' ''/work/zlib-1.2'' ''/prog'' None '''' 4 ''/stage''
     (Some ''/stage/prog/lib'') (Some ''/stage/prog/bin:/usr/bin'') ''cmake'' world0"
  have unset: "environ world0 ''LD_LIBRARY_PATH'' = None" by (simp add: world0_def)
  have "?ok = (fst ?ok, snd ?ok)" by simp
  from cmake_environ [OF this] cmake_ok_run unset
  have 1: "environ (snd ?ok) = environ world0" by simp
  obtain c where c: "fst ?fail = Inl (ShellError c)" using cmake_fail_run by blast
  have "?fail = (fst ?fail, snd ?fail)" by simp
  from cmake_environ [OF this] c
  have 2: "environ (snd ?fail) = (environ world0)(''LD_LIBRARY_PATH'' \<mapsto> ''/stage/prog/lib'',
          ''PATH'' \<mapsto> ''/stage/prog/bin:/usr/bin'')" by blast
  from 1 2 show ?thesis by blast
qed

text \<open>
  The claim as it was stated fails on the failing path: the configure command fails, and
  both variables are left with the values of the call.
\<close>

theorem cmake_environ_counterexample:
  "environ world0 ''PATH'' = Some ''/usr/bin'' \<and>
   environ world0 ''LD_LIBRARY_PATH'' = None \<and>
   fst (cmake ext_fail ''zlib'' ''1.2'' ''/work/zlib-1.2'' ''/prog'' None '''' 4 ''/stage''
     (Some ''/stage/prog/lib'') (Some ''/stage/prog/bin:/usr/bin'') ''cmake'' world0)
     = Inl (ShellError
         [''cmake'', ''/work/zlib-1.2'', ''-DCMAKE_BUILD_TYPE=Release'',
          ''-DBOOST_ROOT=/stage/prog'', ''-DBUILD_SHARED_LIBS=ON'',
          ''-DCMAKE_PREFIX_PATH=/stage/prog'',
          ''-DCMAKE_MODULE_PATH=/stage/prog/share/cmake/Modules'',
          ''-DCMAKE_INSTALL_PREFIX=/prog'', ''-DDEST_PREFIX=/stage'', '''']) \<and>
   environ (snd (cmake ext_fail ''zlib'' ''1.2'' ''/work/zlib-1.2'' ''/prog'' None '''' 4 ''/stage''
     (Some ''/stage/prog/lib'') (Some ''/stage/prog/bin:/usr/bin'') ''cmake'' world0)) ''PATH''
     = Some ''/stage/prog/bin:/usr/bin'' \<and>
   environ (snd (cmake ext_fail ''zlib'' ''1.2'' ''/work/zlib-1.2'' ''/prog'' None '''' 4 ''/stage''
     (Some ''/stage/prog/lib'') (Some ''/stage/prog/bin:/usr/bin'') ''cmake'' world0))
       ''LD_LIBRARY_PATH''
     = Some ''/stage/prog/lib''"
  by (simp add: cmake_def Let_def seq_def shell_def mkdir_def setenv_def getenv_def delenv_def
      emit_def ext_ok_def ext_fail_def world0_def)

text \<open>
  On the path without failure the library search path is deleted, whatever it was before
  the call: a value that was set is lost. The executable search path, beside it, is saved
  and put back.
\<close>

lemma cmake_unsets_ld_library_path:
  "cmake ext package_name ver pkgpath prefix builddir mkopts jobs fakeroot ld_lib_path bin_path
      cmake_exe w = (Inr (), w') \<Longrightarrow> environ w' ''LD_LIBRARY_PATH'' = None"
  by (auto simp: cmake_def Let_def seq_def shell_def mkdir_def setenv_def getenv_def delenv_def
      emit_def
      split: option.splits if_splits prod.splits sum.splits)

lemma cmake_loses_ld_library_path:
  "environ world_ld ''LD_LIBRARY_PATH'' = Some ''/opt/lib'' \<and>
   fst (cmake ext_ok ''zlib'' ''1.2'' ''/work/zlib-1.2'' ''/prog'' None '''' 4 ''/stage''
     (Some ''/stage/prog/lib:/opt/lib'') (Some ''/stage/prog/bin:/usr/bin'') ''cmake'' world_ld)
     = Inr () \<and>
   environ (snd (cmake ext_ok ''zlib'' ''1.2'' ''/work/zlib-1.2'' ''/prog'' None '''' 4 ''/stage''
     (Some ''/stage/prog/lib:/opt/lib'') (Some ''/stage/prog/bin:/usr/bin'') ''cmake'' world_ld))
       ''LD_LIBRARY_PATH'' = None"
  by (simp add: cmake_def Let_def seq_def shell_def mkdir_def setenv_def getenv_def delenv_def
      emit_def ext_ok_def world_ld_def)

section \<open>The verified download\<close>

lemma write_chunks_concat:
  "write_chunks chunks (f, s) = (f @ concat chunks, s @ concat chunks)"
  by (induction chunks arbitrary: f s) auto

lemma write_file_Inr:
  "write_file ext dest chunks w = (Inr sha, w') \<Longrightarrow>
     sha = concat chunks \<and>
     files w' = (files w)(dest \<mapsto> \<lparr>content = concat chunks,
        mode = (case files w dest of None \<Rightarrow> create_mode ext | Some f \<Rightarrow> mode f)\<rparr>)
     \<and> trace w' = trace w @ [OpenWrite dest] \<and> environ w' = environ w"
  by (auto simp: write_file_def Let_def write_chunks_concat emit_def split: if_splits)

lemma chmod_exec_Inr:
  "chmod_exec dest w = (r, w') \<Longrightarrow> files w dest = Some f \<Longrightarrow>
     r = Inr () \<and> files w' = (files w)(dest \<mapsto> f\<lparr>mode := mode f OR 64 OR 8 OR 1\<rparr>)"
  by (auto simp: chmod_exec_def Let_def emit_def)

text \<open>A download that has passed its two checks and got the status 200.\<close>

lemma download_unfold:
  assumes "startswith url ''https''" and "split_on CHR '':'' hash_str = [''sha256'', hash_value]"
    and "http_get ext url = Some (200, chunks)"
  shows "download ext package_name ver prefix url hash_str fakeroot destination w =
     seq (write_file ext (joinpath (Path (fakeroot @ prefix)) destination) chunks) (\<lambda>sha256.
        if sha256_hexdigest ext sha256 \<noteq> hash_value
        then raise (ValueError
               (''Hash of downloaded file ('' @ sha256_hexdigest ext sha256
                  @ '') not equal to expected hash.''))
        else if ''bin'' \<in> set (parts (joinpath (Path (fakeroot @ prefix)) destination))
        then chmod_exec (joinpath (Path (fakeroot @ prefix)) destination)
        else return ()) (emit (HttpGet url) w)"
  using assms by (simp add: download_def Let_def seq_def session_get_def)

lemma download_Inr:
  assumes "download ext package_name ver prefix url hash_str fakeroot destination w = (Inr u, w')"
  shows "\<exists>hash_value chunks. startswith url ''https''
      \<and> split_on CHR '':'' hash_str = [''sha256'', hash_value]
      \<and> http_get ext url = Some (200, chunks)"
proof -
  from assms have 1: "startswith url ''https''"
    by (auto simp: download_def raise_def split: if_splits)
  with assms obtain hash_type hash_value where
    2: "split_on CHR '':'' hash_str = [hash_type, hash_value]"
    by (auto simp: download_def raise_def split: if_splits list.splits)
  with 1 assms have 3: "hash_type = ''sha256''"
    by (auto simp: download_def raise_def split: if_splits)
  from 1 2 3 assms obtain status_code chunks where
    4: "http_get ext url = Some (status_code, chunks)"
    by (cases "http_get ext url") (auto simp: download_def Let_def seq_def session_get_def)
  with 1 2 3 assms have "status_code = 200"
    by (auto simp: download_def Let_def seq_def session_get_def raise_def split: if_splits)
  with 1 2 3 4 show ?thesis by blast
qed

text \<open>
  A link that does not begin with \<^verbatim>\<open>https\<close>, or a hash that is not \<^verbatim>\<open>sha256\<close> and one
  value, is refused with the state as it was: nothing was requested.
\<close>

lemma download_rejects_before_request:
  assumes "\<not> startswith url ''https'' \<or> (\<forall>v. split_on CHR '':'' hash_str \<noteq> [''sha256'', v])"
  shows "\<exists>e. download ext package_name ver prefix url hash_str fakeroot destination w = (Inl e, w)"
proof (cases "startswith url ''https''")
  case False
  then show ?thesis by (simp add: download_def raise_def)
next
  case True
  with assms have "\<forall>v. split_on CHR '':'' hash_str \<noteq> [''sha256'', v]" by blast
  with True show ?thesis
    by (auto simp: download_def raise_def split: list.splits)
qed


text \<open>
  Claim C6. A call of \<^verbatim>\<open>download\<close> that returns has got the status 200, the hash is a
  \<^verbatim>\<open>sha256\<close> one, the digest of all the chunks in order is equal to the declared value, and
  the file holds all the chunks. A call that gets as far as the comparison (the link and
  the hash pass, the status is 200, the file can be opened) raises the \<^verbatim>\<open>ValueError\<close> of
  line 198 when the digest of all the chunks differs from the declared value, and returns
  when they are equal.
\<close>

theorem download_digest:
  "(download ext package_name ver prefix url hash_str fakeroot destination w = (Inr (), w') \<longrightarrow>
      (\<exists>hash_value chunks.
         split_on CHR '':'' hash_str = [''sha256'', hash_value] \<and>
         http_get ext url = Some (200, chunks) \<and>
         sha256_hexdigest ext (concat chunks) = hash_value \<and>
         map_option content (files w' (joinpath (Path (fakeroot @ prefix)) destination))
           = Some (concat chunks))) \<and>
   (startswith url ''https'' \<and> split_on CHR '':'' hash_str = [''sha256'', hash_value] \<and>
    http_get ext url = Some (200, chunks) \<and>
    open_ok ext (trace w @ [HttpGet url]) (joinpath (Path (fakeroot @ prefix)) destination) \<longrightarrow>
      (sha256_hexdigest ext (concat chunks) \<noteq> hash_value \<longrightarrow>
         fst (download ext package_name ver prefix url hash_str fakeroot destination w)
           = Inl (ValueError (''Hash of downloaded file ('' @ sha256_hexdigest ext (concat chunks)
                                @ '') not equal to expected hash.''))) \<and>
      (sha256_hexdigest ext (concat chunks) = hash_value \<longrightarrow>
         fst (download ext package_name ver prefix url hash_str fakeroot destination w) = Inr ()))"
proof (intro conjI impI)
  let ?dest = "joinpath (Path (fakeroot @ prefix)) destination"
  assume ok: "download ext package_name ver prefix url hash_str fakeroot destination w = (Inr (), w')"
  from download_Inr [OF ok] obtain hash_value chunks where
    1: "startswith url ''https''" and 2: "split_on CHR '':'' hash_str = [''sha256'', hash_value]"
    and 3: "http_get ext url = Some (200, chunks)" by blast
  note u = download_unfold [OF 1 2 3, of package_name ver prefix fakeroot destination w]
  obtain r1 w1 where wf: "write_file ext ?dest chunks (emit (HttpGet url) w) = (r1, w1)"
    by (cases "write_file ext ?dest chunks (emit (HttpGet url) w)")
  with ok u obtain sha where r1: "r1 = Inr sha" by (cases r1) (auto simp: seq_def)
  from write_file_Inr [OF wf [unfolded r1]] have sha: "sha = concat chunks"
    and f1: "files w1 ?dest = Some \<lparr>content = concat chunks,
        mode = (case files (emit (HttpGet url) w) ?dest of None \<Rightarrow> create_mode ext
                | Some f \<Rightarrow> mode f)\<rparr>" by simp_all
  from ok u wf r1 sha have eq: "sha256_hexdigest ext (concat chunks) = hash_value"
    by (auto simp: seq_def raise_def split: if_splits)
  have "map_option content (files w' ?dest) = Some (concat chunks)"
  proof (cases "''bin'' \<in> set (parts ?dest)")
    case True
    with ok u wf r1 sha eq have "chmod_exec ?dest w1 = (Inr (), w')" by (simp add: seq_def)
    from chmod_exec_Inr [OF this f1] show ?thesis by simp
  next
    case False
    with ok u wf r1 sha eq have "w' = w1" by (simp add: seq_def return_def)
    with f1 show ?thesis by simp
  qed
  with 2 3 eq show "\<exists>hash_value chunks.
         split_on CHR '':'' hash_str = [''sha256'', hash_value] \<and>
         http_get ext url = Some (200, chunks) \<and>
         sha256_hexdigest ext (concat chunks) = hash_value \<and>
         map_option content (files w' ?dest) = Some (concat chunks)" by blast
next
  let ?dest = "joinpath (Path (fakeroot @ prefix)) destination"
  assume a: "startswith url ''https'' \<and> split_on CHR '':'' hash_str = [''sha256'', hash_value] \<and>
    http_get ext url = Some (200, chunks) \<and> open_ok ext (trace w @ [HttpGet url]) ?dest"
  assume ne: "sha256_hexdigest ext (concat chunks) \<noteq> hash_value"
  from a have u: "download ext package_name ver prefix url hash_str fakeroot destination w =
     seq (write_file ext ?dest chunks) (\<lambda>sha256.
        if sha256_hexdigest ext sha256 \<noteq> hash_value
        then raise (ValueError
               (''Hash of downloaded file ('' @ sha256_hexdigest ext sha256
                  @ '') not equal to expected hash.''))
        else if ''bin'' \<in> set (parts ?dest) then chmod_exec ?dest else return ())
       (emit (HttpGet url) w)"
    by (intro download_unfold) simp_all
  from a ne show "fst (download ext package_name ver prefix url hash_str fakeroot destination w)
           = Inl (ValueError (''Hash of downloaded file ('' @ sha256_hexdigest ext (concat chunks)
                                @ '') not equal to expected hash.''))"
    unfolding u
    by (simp add: seq_def write_file_def Let_def write_chunks_concat emit_def raise_def)
next
  let ?dest = "joinpath (Path (fakeroot @ prefix)) destination"
  assume a: "startswith url ''https'' \<and> split_on CHR '':'' hash_str = [''sha256'', hash_value] \<and>
    http_get ext url = Some (200, chunks) \<and> open_ok ext (trace w @ [HttpGet url]) ?dest"
  assume eq: "sha256_hexdigest ext (concat chunks) = hash_value"
  from a have u: "download ext package_name ver prefix url hash_str fakeroot destination w =
     seq (write_file ext ?dest chunks) (\<lambda>sha256.
        if sha256_hexdigest ext sha256 \<noteq> hash_value
        then raise (ValueError
               (''Hash of downloaded file ('' @ sha256_hexdigest ext sha256
                  @ '') not equal to expected hash.''))
        else if ''bin'' \<in> set (parts ?dest) then chmod_exec ?dest else return ())
       (emit (HttpGet url) w)"
    by (intro download_unfold) simp_all
  from a eq show "fst (download ext package_name ver prefix url hash_str fakeroot destination w)
      = Inr ()"
    unfolding u
    by (simp add: seq_def write_file_def Let_def write_chunks_concat emit_def return_def
        chmod_exec_def)
qed

lemmas run_simps =
  download_def Let_def seq_def session_get_def raise_def return_def write_file_def
  chmod_exec_def emit_def ext_ok_def world0_def startswith_def Path_def joinpath_def parts_def

lemma download_ok_run:
  "fst (download ext_ok ''tool'' ''1.0'' ''/prog'' ''https://example.org/tool'' ''sha256:0f''
     ''/stage'' ''bin/tool'' world0) = Inr ()"
  by (simp add: run_simps)

lemma download_share_run:
  "fst (download ext_ok ''notes'' ''1.0'' ''/prog'' ''https://example.org/notes'' ''sha256:0f''
     ''/stage'' ''share/notes.txt'' world0) = Inr ()"
  by (simp add: run_simps)

theorem download_digest_witness:
  "fst (download ext_ok ''tool'' ''1.0'' ''/prog'' ''https://example.org/tool'' ''sha256:0e''
     ''/stage'' ''bin/tool'' world0)
     = Inl (ValueError ''Hash of downloaded file (0f) not equal to expected hash.'') \<and>
   fst (download ext_ok ''tool'' ''1.0'' ''/prog'' ''https://example.org/tool'' ''sha256:0f''
     ''/stage'' ''bin/tool'' world0) = Inr () \<and>
   map_option content
     (files (snd (download ext_ok ''tool'' ''1.0'' ''/prog'' ''https://example.org/tool''
        ''sha256:0f'' ''/stage'' ''bin/tool'' world0))
        (joinpath (Path (''/stage'' @ ''/prog'')) ''bin/tool''))
     = Some ''#!/bin/shexit 0''"
proof -
  let ?good = "download ext_ok ''tool'' ''1.0'' ''/prog'' ''https://example.org/tool''
     ''sha256:0f'' ''/stage'' ''bin/tool'' world0"
  have pre: "startswith ''https://example.org/tool'' ''https''"
    "http_get ext_ok ''https://example.org/tool'' = Some (200, [''#!/bin/sh'', ''exit 0''])"
    "open_ok ext_ok (trace world0 @ [HttpGet ''https://example.org/tool''])
       (joinpath (Path (''/stage'' @ ''/prog'')) ''bin/tool'')"
    "sha256_hexdigest ext_ok (concat [''#!/bin/sh'', ''exit 0'']) = ''0f''"
    by (simp_all add: startswith_def ext_ok_def)
  have bad: "split_on CHR '':'' ''sha256:0e'' = [''sha256'', ''0e'']"
    and good: "split_on CHR '':'' ''sha256:0f'' = [''sha256'', ''0f'']" by simp_all
  from download_digest [of ext_ok "''tool''" "''1.0''" "''/prog''" "''https://example.org/tool''"
      "''sha256:0e''" "''/stage''" "''bin/tool''" world0 _ "''0e''" "[''#!/bin/sh'', ''exit 0'']"]
    pre bad
  have 1: "fst (download ext_ok ''tool'' ''1.0'' ''/prog'' ''https://example.org/tool''
      ''sha256:0e'' ''/stage'' ''bin/tool'' world0)
     = Inl (ValueError ''Hash of downloaded file (0f) not equal to expected hash.'')"
    by simp
  note th = download_digest [of ext_ok "''tool''" "''1.0''" "''/prog''"
      "''https://example.org/tool''" "''sha256:0f''" "''/stage''" "''bin/tool''" world0
      "snd ?good" "''0f''" "[''#!/bin/sh'', ''exit 0'']"]
  from th pre good have 2: "fst ?good = Inr ()" by simp
  then have "?good = (Inr (), snd ?good)" by (metis prod.collapse)
  with th pre good have 3: "map_option content
     (files (snd ?good) (joinpath (Path (''/stage'' @ ''/prog'')) ''bin/tool''))
     = Some ''#!/bin/shexit 0''" by auto
  from 1 2 3 show ?thesis by blast
qed

text \<open>
  Claim C7, as amended. After a call of \<^verbatim>\<open>download\<close> that returns, the file has the three
  executable bits added to its mode when one of the directories of its path, the staging
  root and the prefix included, is named \<^verbatim>\<open>bin\<close>, whether or not it is the last one; when
  no component of the path is \<^verbatim>\<open>bin\<close> the mode is the one the file had, or the one it
  was made with.
\<close>

theorem download_executable:
  assumes ok: "download ext package_name ver prefix url hash_str fakeroot destination w = (Inr (), w')"
  shows "(''bin'' \<in> set (butlast (snd (joinpath (Path (fakeroot @ prefix)) destination))) \<longrightarrow>
            map_option mode (files w' (joinpath (Path (fakeroot @ prefix)) destination))
              = Some ((case files w (joinpath (Path (fakeroot @ prefix)) destination) of
                         None \<Rightarrow> create_mode ext | Some f \<Rightarrow> mode f) OR 64 OR 8 OR 1)) \<and>
         (''bin'' \<notin> set (parts (joinpath (Path (fakeroot @ prefix)) destination)) \<longrightarrow>
            map_option mode (files w' (joinpath (Path (fakeroot @ prefix)) destination))
              = Some (case files w (joinpath (Path (fakeroot @ prefix)) destination) of
                        None \<Rightarrow> create_mode ext | Some f \<Rightarrow> mode f))"
proof -
  let ?dest = "joinpath (Path (fakeroot @ prefix)) destination"
  let ?old = "case files w ?dest of None \<Rightarrow> create_mode ext | Some f \<Rightarrow> mode f"
  from download_Inr [OF ok] obtain hash_value chunks where
    1: "startswith url ''https''" and 2: "split_on CHR '':'' hash_str = [''sha256'', hash_value]"
    and 3: "http_get ext url = Some (200, chunks)" by blast
  note u = download_unfold [OF 1 2 3, of package_name ver prefix fakeroot destination w]
  obtain r1 w1 where wf: "write_file ext ?dest chunks (emit (HttpGet url) w) = (r1, w1)"
    by (cases "write_file ext ?dest chunks (emit (HttpGet url) w)")
  with ok u obtain sha where r1: "r1 = Inr sha" by (cases r1) (auto simp: seq_def)
  from write_file_Inr [OF wf [unfolded r1]] have sha: "sha = concat chunks"
    and f1: "files w1 ?dest = Some \<lparr>content = concat chunks, mode = ?old\<rparr>"
    by (simp_all add: emit_def)
  from ok u wf r1 sha have eq: "sha256_hexdigest ext (concat chunks) = hash_value"
    by (auto simp: seq_def raise_def split: if_splits)
  have yes: "map_option mode (files w' ?dest) = Some (?old OR 64 OR 8 OR 1)"
    if "''bin'' \<in> set (parts ?dest)"
  proof -
    from that ok u wf r1 sha eq have "chmod_exec ?dest w1 = (Inr (), w')" by (simp add: seq_def)
    from chmod_exec_Inr [OF this f1] show ?thesis by simp
  qed
  have no: "map_option mode (files w' ?dest) = Some ?old" if "''bin'' \<notin> set (parts ?dest)"
  proof -
    from that ok u wf r1 sha eq have "w' = w1" by (simp add: seq_def return_def)
    with f1 show ?thesis by simp
  qed
  have "''bin'' \<in> set (parts ?dest)" if "''bin'' \<in> set (butlast (snd ?dest))"
    using that by (auto simp: parts_def dest: in_set_butlastD)
  with yes no show ?thesis by blast
qed

theorem download_executable_witness:
  "map_option mode
     (files (snd (download ext_ok ''tool'' ''1.0'' ''/prog'' ''https://example.org/tool''
        ''sha256:0f'' ''/stage'' ''bin/tool'' world0))
        (joinpath (Path (''/stage'' @ ''/prog'')) ''bin/tool''))
     = Some 493 \<and>
   map_option mode
     (files (snd (download ext_ok ''notes'' ''1.0'' ''/prog'' ''https://example.org/notes''
        ''sha256:0f'' ''/stage'' ''share/notes.txt'' world0))
        (joinpath (Path (''/stage'' @ ''/prog'')) ''share/notes.txt''))
     = Some 420"
proof -
  let ?tool = "download ext_ok ''tool'' ''1.0'' ''/prog'' ''https://example.org/tool''
     ''sha256:0f'' ''/stage'' ''bin/tool'' world0"
  let ?notes = "download ext_ok ''notes'' ''1.0'' ''/prog'' ''https://example.org/notes''
     ''sha256:0f'' ''/stage'' ''share/notes.txt'' world0"
  have t: "?tool = (Inr (), snd ?tool)" using download_ok_run by (metis prod.collapse)
  have n: "?notes = (Inr (), snd ?notes)" using download_share_run by (metis prod.collapse)
  have d1: "''bin'' \<in> set (butlast (snd (joinpath (Path (''/stage'' @ ''/prog'')) ''bin/tool'')))"
    by (simp add: joinpath_def Path_def startswith_def)
  have d2: "''bin'' \<notin> set (parts (joinpath (Path (''/stage'' @ ''/prog'')) ''share/notes.txt''))"
    by (simp add: joinpath_def Path_def startswith_def parts_def)
  have old: "files world0 p = None" for p by (simp add: world0_def)
  have m: "create_mode ext_ok = 420" by (simp add: ext_ok_def)
  have bits: "(420::nat) OR 64 OR 8 OR 1 = 493" by simp
  from download_executable [OF t] d1 old m bits
  have 1: "map_option mode (files (snd ?tool)
      (joinpath (Path (''/stage'' @ ''/prog'')) ''bin/tool'')) = Some 493" by simp
  from download_executable [OF n] d2 old m
  have 2: "map_option mode (files (snd ?notes)
      (joinpath (Path (''/stage'' @ ''/prog'')) ''share/notes.txt'')) = Some 420" by simp
  from 1 2 show ?thesis by blast
qed

text \<open>
  The claim as it was stated fails for a file below a directory \<^verbatim>\<open>bin\<close> that is not its
  own directory: the last directory of \<^verbatim>\<open>bin/plugins/helper\<close> is \<^verbatim>\<open>plugins\<close>, and the
  file made with mode \<open>0o644\<close> ends with \<open>0o755\<close>.
\<close>

theorem download_executable_counterexample:
  "fst (download ext_ok ''helper'' ''1.0'' ''/prog'' ''https://example.org/helper'' ''sha256:0f''
     ''/stage'' ''bin/plugins/helper'' world0) = Inr () \<and>
   joinpath (Path (''/stage'' @ ''/prog'')) ''bin/plugins/helper''
     = (''/'', [''stage'', ''prog'', ''bin'', ''plugins'', ''helper'']) \<and>
   files world0 (''/'', [''stage'', ''prog'', ''bin'', ''plugins'', ''helper'']) = None \<and>
   create_mode ext_ok = 420 \<and>
   map_option mode
     (files (snd (download ext_ok ''helper'' ''1.0'' ''/prog'' ''https://example.org/helper''
        ''sha256:0f'' ''/stage'' ''bin/plugins/helper'' world0))
        (''/'', [''stage'', ''prog'', ''bin'', ''plugins'', ''helper'']))
     = Some 493"
  by (simp add: run_simps)

section \<open>The orchestrator: validation and its moment\<close>

lemma make_loop_append:
  "make_loop ext c (xs @ ys) w =
     (case make_loop ext c xs w of (Inl e, w1) \<Rightarrow> (Inl e, w1) | (Inr u, w1) \<Rightarrow> make_loop ext c ys w1)"
proof (induction xs arbitrary: w)
  case Nil
  show ?case by (simp add: return_def)
next
  case (Cons x xs)
  show ?case
  proof (cases "make_entry ext c x w")
    case (Pair r w0)
    show ?thesis
    proof (cases r)
      case (Inl e)
      with Pair show ?thesis by (simp add: seq_def)
    next
      case (Inr u)
      with Pair Cons.IH [of w0] show ?thesis by (simp add: seq_def)
    qed
  qed
qed

lemma mixed_lookups:
  "map_of (c_pkgs vars0) ''tool'' = Some ''2''"
  "c_repo vars0 ''tool''
     = Some [''2'' \<mapsto> (entry ''pip'' None)\<lparr>k_url := Some ''https://example.org/tool''\<rparr>]"
  "map_of (c_pkgs vars0) ''fetch'' = Some ''3''"
  "c_repo vars0 ''fetch''
     = Some [''3'' \<mapsto> (entry ''download'' None)
           \<lparr>k_url := Some ''https://example.org/fetch'', k_hash := Some ''sha256:0f''\<rparr>]"
  "map_of (c_pkgs vars0) ''named'' = Some ''4''"
  "c_repo vars0 ''named''
     = Some [''4'' \<mapsto> (entry ''cmake'' None)\<lparr>k_pypi_package_name := Some ''Named''\<rparr>]"
  by (simp_all add: vars0_def pkgs_mixed_def repo_mixed_def)

text \<open>
  Claim C8. Take a plan entry whose package has a requested version, an entry in the
  repository at that version, and a build method there. If the entry has one of the keys
  \<^verbatim>\<open>url\<close>, \<^verbatim>\<open>hash\<close>, \<^verbatim>\<open>destination\<close> and its method is not \<^verbatim>\<open>download\<close>, or its method
  is \<^verbatim>\<open>download\<close> and one of the three keys is missing, or it has the key
  \<^verbatim>\<open>pypi_package_name\<close> and its method is not \<^verbatim>\<open>pip\<close>, then the body of the loop raises
  \<^verbatim>\<open>ValueError\<close> and leaves the state as it found it: no strategy has been called, no
  event has happened, no variable of the environment has changed.
\<close>

theorem make_entry_validation:
  assumes "map_of (c_pkgs c) package_name = Some ver" and "c_repo c package_name = Some versions"
    and "versions ver = Some current" and "k_make current = Some mk"
  shows "((k_url current \<noteq> None \<or> k_hash current \<noteq> None \<or> k_destination current \<noteq> None)
            \<and> mk \<noteq> ''download'' \<longrightarrow>
            make_entry ext c (package_name, path) w
              = (Inl (ValueError (''url, destination, hash only valid with '' @ [CHR 0x27]
                                    @ ''make: download'' @ [CHR 0x27])), w)) \<and>
         ((k_url current = None \<or> k_hash current = None \<or> k_destination current = None)
            \<and> mk = ''download'' \<longrightarrow>
            make_entry ext c (package_name, path) w
              = (Inl (ValueError (''url, destination, hash all required with '' @ [CHR 0x27]
                                    @ ''make: download'' @ [CHR 0x27])), w)) \<and>
         (k_pypi_package_name current \<noteq> None \<and> mk \<noteq> ''pip'' \<longrightarrow>
            (\<exists>msg. make_entry ext c (package_name, path) w = (Inl (ValueError msg), w)) \<and>
            (k_url current = None \<and> k_hash current = None \<and> k_destination current = None
               \<and> mk \<noteq> ''download'' \<longrightarrow>
               make_entry ext c (package_name, path) w
                 = (Inl (ValueError ''pypi_package_name is only valid when building with pip''),
                    w)))"
proof -
  have j: "join '', '' download_keys = ''url, destination, hash''"
    by (simp add: download_keys_def)
  show ?thesis
    using assms
    by (auto simp: make_entry_def Let_def raise_def check_entry_def j)
qed

theorem make_entry_validation_witness:
  "make_entry ext_ok vars0 (''tool'', ''tool-2'') world0
     = (Inl (ValueError (''url, destination, hash only valid with '' @ [CHR 0x27]
                           @ ''make: download'' @ [CHR 0x27])), world0) \<and>
   make_entry ext_ok vars0 (''fetch'', ''fetch-3'') world0
     = (Inl (ValueError (''url, destination, hash all required with '' @ [CHR 0x27]
                           @ ''make: download'' @ [CHR 0x27])), world0) \<and>
   make_entry ext_ok vars0 (''named'', ''named-4'') world0
     = (Inl (ValueError ''pypi_package_name is only valid when building with pip''), world0)"
proof -
  let ?tool = "(entry ''pip'' None)\<lparr>k_url := Some ''https://example.org/tool''\<rparr>"
  let ?fetch = "(entry ''download'' None)
      \<lparr>k_url := Some ''https://example.org/fetch'', k_hash := Some ''sha256:0f''\<rparr>"
  let ?named = "(entry ''cmake'' None)\<lparr>k_pypi_package_name := Some ''Named''\<rparr>"
  have 1: "make_entry ext_ok vars0 (''tool'', ''tool-2'') world0
     = (Inl (ValueError (''url, destination, hash only valid with '' @ [CHR 0x27]
                           @ ''make: download'' @ [CHR 0x27])), world0)"
    using make_entry_validation [where c = vars0 and package_name = "''tool''" and ver = "''2''"
        and versions = "[''2'' \<mapsto> ?tool]" and current = ?tool and mk = "''pip''"
        and ext = ext_ok and path = "''tool-2''" and w = world0]
    by (simp add: mixed_lookups entry_def)
  have 2: "make_entry ext_ok vars0 (''fetch'', ''fetch-3'') world0
     = (Inl (ValueError (''url, destination, hash all required with '' @ [CHR 0x27]
                           @ ''make: download'' @ [CHR 0x27])), world0)"
    using make_entry_validation [where c = vars0 and package_name = "''fetch''" and ver = "''3''"
        and versions = "[''3'' \<mapsto> ?fetch]" and current = ?fetch and mk = "''download''"
        and ext = ext_ok and path = "''fetch-3''" and w = world0]
    by (simp add: mixed_lookups entry_def)
  have 3: "make_entry ext_ok vars0 (''named'', ''named-4'') world0
     = (Inl (ValueError ''pypi_package_name is only valid when building with pip''), world0)"
    using make_entry_validation [where c = vars0 and package_name = "''named''" and ver = "''4''"
        and versions = "[''4'' \<mapsto> ?named]" and current = ?named and mk = "''cmake''"
        and ext = ext_ok and path = "''named-4''" and w = world0]
    by (simp add: mixed_lookups entry_def)
  from 1 2 3 show ?thesis by blast
qed

lemma make_setup_cases:
  "make_setup ext pkgs repo data prefix dlprefix builddir jobs cmk pip virtualenv fakeroot w
     = (r, w1) \<Longrightarrow>
   (case r of
      Inl e \<Rightarrow> (\<exists>c. e = ShellError c) \<or> (\<exists>k. e = KeyError k)
    | Inr c \<Rightarrow>
        trace w1 = trace w @ [Shell [''mkdir -p'', fakeroot @ prefix]] \<and>
        environ w1 = (environ w)(''DESTDIR'' \<mapsto> fakeroot, ''BOOST_ROOT'' \<mapsto> fakeroot @ prefix))"
  by (auto simp: make_setup_def Let_def seq_def shell_def setenv_def getenv_def environ_get_def
      return_def emit_def
      split: option.splits sum.splits prod.splits)

lemma pkgpath_names_Inl: "pkgpath_names pkgs order = Inl e \<Longrightarrow> \<exists>k. e = KeyError k"
  by (induction order) (auto split: option.splits sum.splits)

lemma pkgpath_names_length: "pkgpath_names pkgs order = Inr paths \<Longrightarrow> length paths = length order"
  by (induction order arbitrary: paths) (auto split: option.splits sum.splits)

lemma pkgpaths_cases:
  "(case pkgpaths pkgs dlprefix order of
      Inl e \<Rightarrow> \<exists>k. e = KeyError k
    | Inr paths \<Rightarrow> length paths = length order)"
  by (cases "pkgpath_names pkgs order")
    (auto simp: pkgpaths_def dest: pkgpath_names_Inl pkgpath_names_length split: option.splits)

lemma pkgorder_error_kinds:
  "pkgorder n pkgs repo = Some (Inl e) \<Longrightarrow> (\<exists>k. e = KeyError k) \<or> (\<exists>c m. e = SystemExit c m)"
proof -
  assume "pkgorder n pkgs repo = Some (Inl e)"
  from traverse_roots_Inl [OF this] obtain p v where "dfs n p v pkgs repo = Some (Inl e)"
    by blast
  from dfs_error_kinds [OF this] show ?thesis by blast
qed

lemma make_ValueError:
  assumes m: "make fuel ext pkgs repo data prefix dlprefix builddir jobs cmk pip virtualenv fakeroot w
      = Some (Inl (ValueError msg), w')"
  shows "\<exists>c w1 plan.
      make_setup ext pkgs repo data prefix dlprefix builddir jobs cmk pip virtualenv fakeroot w
        = (Inr c, w1) \<and>
      trace w1 = trace w @ [Shell [''mkdir -p'', fakeroot @ prefix]] \<and>
      environ w1 = (environ w)(''DESTDIR'' \<mapsto> fakeroot, ''BOOST_ROOT'' \<mapsto> fakeroot @ prefix) \<and>
      pkgorder fuel pkgs repo = Some (Inr (map fst plan)) \<and>
      make_loop ext c plan w1 = (Inl (ValueError msg), w')"
proof -
  let ?prepare = "make_setup ext pkgs repo data prefix dlprefix builddir jobs cmk pip virtualenv
      fakeroot"
  from m obtain r where r: "pkgorder fuel pkgs repo = Some r"
    by (cases "pkgorder fuel pkgs repo") (auto simp: make_def)
  have "r \<noteq> Inl e" for e
  proof
    assume e: "r = Inl e"
    with m r have "e = ValueError msg" by (simp add: make_def)
    with pkgorder_error_kinds [of fuel pkgs repo e] r e show False by auto
  qed
  then obtain order where order: "r = Inr order" by (cases r) auto
  obtain r1 w1 where s: "?prepare w = (r1, w1)" by (cases "?prepare w")
  from m r order s have run: "(case r1 of Inl e \<Rightarrow> (Inl e, w1)
      | Inr c \<Rightarrow> (case pkgpaths pkgs dlprefix order of Inl e \<Rightarrow> raise e
                 | Inr paths \<Rightarrow> make_loop ext c (zip order paths)) w1)
      = (Inl (ValueError msg), w')"
    by (simp add: make_def seq_def)
  have "r1 \<noteq> Inl e" for e
  proof
    assume e: "r1 = Inl e"
    with run have "e = ValueError msg" by simp
    with make_setup_cases [OF s] e show False by auto
  qed
  then obtain c where c: "r1 = Inr c" by (cases r1) auto
  from make_setup_cases [OF s] c
  have t: "trace w1 = trace w @ [Shell [''mkdir -p'', fakeroot @ prefix]]"
    and en: "environ w1 = (environ w)(''DESTDIR'' \<mapsto> fakeroot, ''BOOST_ROOT'' \<mapsto> fakeroot @ prefix)"
    by simp_all
  obtain paths where p: "pkgpaths pkgs dlprefix order = Inr paths"
    and len: "length paths = length order"
  proof (cases "pkgpaths pkgs dlprefix order")
    case (Inl e)
    with run c have "e = ValueError msg" by (simp add: raise_def)
    with pkgpaths_cases [where pkgs = pkgs and dlprefix = dlprefix and order = order] Inl show ?thesis by auto
  next
    case (Inr paths)
    with pkgpaths_cases [where pkgs = pkgs and dlprefix = dlprefix and order = order] that show ?thesis by auto
  qed
  from run c p have l: "make_loop ext c (zip order paths) w1 = (Inl (ValueError msg), w')"
    by simp
  from len have "map fst (zip order paths) = order" by simp
  with r order have o: "pkgorder fuel pkgs repo = Some (Inr (map fst (zip order paths)))"
    by simp
  from s c have s': "?prepare w = (Inr c, w1)" by simp
  show ?thesis
    by (intro exI [of _ c] exI [of _ w1] exI [of _ "zip order paths"] conjI s' t en o l)
qed

text \<open>
  Claim C4, as amended. A run of \<^verbatim>\<open>make\<close> that ends with a \<^verbatim>\<open>ValueError\<close> has resolved
  the plan, has run \<^verbatim>\<open>mkdir -p\<close> for the staging directory, has set \<^verbatim>\<open>DESTDIR\<close> and
  \<^verbatim>\<open>BOOST_ROOT\<close>, and raises the error inside its loop over the plan. In the loop, an entry
  that fails one of the three checks of lines 306 to 318, or whose build method is none of
  the seven that \<^verbatim>\<open>make\<close> knows, raises its error without any effect of its own; the
  loop reaches it after the strategies of all the entries before it have run, in the
  state they have left, and runs nothing after it.
\<close>

theorem config_error_moment:
  "(make fuel ext pkgs repo data prefix dlprefix builddir jobs cmk pip virtualenv fakeroot w
      = Some (Inl (ValueError m), w') \<longrightarrow>
      (\<exists>c w1 plan.
         make_setup ext pkgs repo data prefix dlprefix builddir jobs cmk pip virtualenv fakeroot w
           = (Inr c, w1) \<and>
         trace w1 = trace w @ [Shell [''mkdir -p'', fakeroot @ prefix]] \<and>
         environ w1 = (environ w)(''DESTDIR'' \<mapsto> fakeroot, ''BOOST_ROOT'' \<mapsto> fakeroot @ prefix) \<and>
         pkgorder fuel pkgs repo = Some (Inr (map fst plan)) \<and>
         make_loop ext c plan w1 = (Inl (ValueError m), w'))) \<and>
   (map_of (c_pkgs c) package_name = Some ver \<and> c_repo c package_name = Some versions \<and>
    versions ver = Some current \<and> k_make current = Some mk \<and>
    (check_entry current mk = Some msg \<or>
     check_entry current mk = None \<and> msg = ''Non-supported make: '' @ mk \<and>
     mk \<notin> set [''rpm'', ''cmake'', ''pip'', ''sh'', ''rsync'', ''noop'', ''download'']) \<longrightarrow>
      make_entry ext c (package_name, path) v = (Inl (ValueError msg), v) \<and>
      make_loop ext c (before @ (package_name, path) # after) v =
        (case make_loop ext c before v of
           (Inl e, v1) \<Rightarrow> (Inl e, v1)
         | (Inr u, v1) \<Rightarrow> (Inl (ValueError msg), v1)))"
proof (intro conjI impI)
  assume "make fuel ext pkgs repo data prefix dlprefix builddir jobs cmk pip virtualenv fakeroot w
      = Some (Inl (ValueError m), w')"
  then show "\<exists>c w1 plan.
         make_setup ext pkgs repo data prefix dlprefix builddir jobs cmk pip virtualenv fakeroot w
           = (Inr c, w1) \<and>
         trace w1 = trace w @ [Shell [''mkdir -p'', fakeroot @ prefix]] \<and>
         environ w1 = (environ w)(''DESTDIR'' \<mapsto> fakeroot, ''BOOST_ROOT'' \<mapsto> fakeroot @ prefix) \<and>
         pkgorder fuel pkgs repo = Some (Inr (map fst plan)) \<and>
         make_loop ext c plan w1 = (Inl (ValueError m), w')"
    by (rule make_ValueError)
next
  assume a: "map_of (c_pkgs c) package_name = Some ver \<and> c_repo c package_name = Some versions \<and>
    versions ver = Some current \<and> k_make current = Some mk \<and>
    (check_entry current mk = Some msg \<or>
     check_entry current mk = None \<and> msg = ''Non-supported make: '' @ mk \<and>
     mk \<notin> set [''rpm'', ''cmake'', ''pip'', ''sh'', ''rsync'', ''noop'', ''download''])"
  from a have l: "map_of (c_pkgs c) package_name = Some ver"
    "c_repo c package_name = Some versions" "versions ver = Some current"
    "k_make current = Some mk" by simp_all
  have e: "make_entry ext c (package_name, path) v = (Inl (ValueError msg), v)" for v
  proof (cases "check_entry current mk")
    case (Some msg')
    with a have "check_entry current mk = Some msg" by simp
    with l show ?thesis by (simp add: make_entry_def Let_def raise_def)
  next
    case None
    with a have "msg = ''Non-supported make: '' @ mk"
      and "mk \<notin> set [''rpm'', ''cmake'', ''pip'', ''sh'', ''rsync'', ''noop'', ''download'']"
      by simp_all
    with l None show ?thesis
      by (simp add: make_entry_def Let_def dispatch_def seq_def return_def raise_def)
  qed
  show "make_entry ext c (package_name, path) v = (Inl (ValueError msg), v)" by (rule e)
  show "make_loop ext c (before @ (package_name, path) # after) v =
        (case make_loop ext c before v of
           (Inl e, v1) \<Rightarrow> (Inl e, v1)
         | (Inr u, v1) \<Rightarrow> (Inl (ValueError msg), v1))"
    by (simp add: make_loop_append e seq_def split: prod.splits sum.splits)
qed

lemma make_two_run:
  "map_option (\<lambda>(r, w'). (r, trace w'))
     (make 1 ext_ok pkgs_two repo_mixed str_opt ''/prog'' None None 1 ''cmake'' ''pip'' None
        ''/stage'' world0)
   = Some (Inl (ValueError (''url, destination, hash only valid with '' @ [CHR 0x27]
                              @ ''make: download'' @ [CHR 0x27])),
           [Shell [''mkdir -p'', ''/stage/prog''],
            Shell [''rsync -am'', [], ''/work/base-1/'', ''/stage/prog'']])"
  by code_simp

lemma base_run:
  "make_loop ext_ok vars0 [(''base'', ''base-1'')] world0
     = (Inr (), emit (Shell [''rsync -am'', [], ''/work/base-1/'', ''/stage/prog'']) world0)"
  by (simp add: make_entry_def Let_def dispatch_def seq_def return_def raise_def rsync_def
      shell_def check_entry_def resolve_def vars0_def pkgs_mixed_def repo_mixed_def entry_def
      ext_ok_def path_join_def startswith_def)

theorem config_error_moment_witness:
  "(\<exists>c w1 plan.
      make_setup ext_ok pkgs_two repo_mixed str_opt ''/prog'' None None 1 ''cmake'' ''pip'' None
        ''/stage'' world0 = (Inr c, w1) \<and>
      trace w1 = [Shell [''mkdir -p'', ''/stage/prog'']] \<and>
      pkgorder 1 pkgs_two repo_mixed = Some (Inr (map fst (plan :: (string \<times> string) list)))) \<and>
   make_loop ext_ok vars0
       [(''base'', ''base-1''), (''tool'', ''tool-2''), (''fetch'', ''fetch-3'')] world0
     = (Inl (ValueError (''url, destination, hash only valid with '' @ [CHR 0x27]
                           @ ''make: download'' @ [CHR 0x27])),
        emit (Shell [''rsync -am'', [], ''/work/base-1/'', ''/stage/prog'']) world0)"
proof -
  let ?tool = "(entry ''pip'' None)\<lparr>k_url := Some ''https://example.org/tool''\<rparr>"
  let ?msg = "''url, destination, hash only valid with '' @ [CHR 0x27]
      @ ''make: download'' @ [CHR 0x27]"
  let ?make = "make 1 ext_ok pkgs_two repo_mixed str_opt ''/prog'' None None 1 ''cmake'' ''pip''
      None ''/stage'' world0"
  have "map_option (\<lambda>(r, w'). (r, trace w')) ?make
      = Some (Inl (ValueError ?msg),
           [Shell [''mkdir -p'', ''/stage/prog''],
            Shell [''rsync -am'', [], ''/work/base-1/'', ''/stage/prog'']])"
    by (rule make_two_run)
  then obtain w' where run: "?make = Some (Inl (ValueError ?msg), w')"
    by (cases ?make) (auto split: prod.splits)
  have t0: "trace world0 = []" by (simp add: world0_def)
  from config_error_moment [THEN conjunct1, rule_format, OF run] obtain c w1 plan where
    "make_setup ext_ok pkgs_two repo_mixed str_opt ''/prog'' None None 1 ''cmake'' ''pip'' None
        ''/stage'' world0 = (Inr c, w1)"
    "trace w1 = trace world0 @ [Shell [''mkdir -p'', ''/stage'' @ ''/prog'']]"
    "pkgorder 1 pkgs_two repo_mixed = Some (Inr (map fst (plan :: (string \<times> string) list)))"
    by (elim exE conjE) (rule that)
  with t0 have 1: "\<exists>c w1 plan.
      make_setup ext_ok pkgs_two repo_mixed str_opt ''/prog'' None None 1 ''cmake'' ''pip'' None
        ''/stage'' world0 = (Inr c, w1) \<and>
      trace w1 = [Shell [''mkdir -p'', ''/stage/prog'']] \<and>
      pkgorder 1 pkgs_two repo_mixed = Some (Inr (map fst (plan :: (string \<times> string) list)))"
    by auto
  have chk: "check_entry ?tool ''pip'' = Some ?msg"
    by (simp add: check_entry_def entry_def download_keys_def)
  have mk: "k_make ?tool = Some ''pip''" by (simp add: entry_def)
  from config_error_moment [where c = vars0 and package_name = "''tool''" and ver = "''2''"
      and versions = "[''2'' \<mapsto> ?tool]" and current = ?tool and mk = "''pip''" and msg = ?msg
      and ext = ext_ok and path = "''tool-2''" and v = world0
      and before = "[(''base'', ''base-1'')]" and after = "[(''fetch'', ''fetch-3'')]",
      THEN conjunct2]
    chk mk mixed_lookups(1,2) base_run
  have 2: "make_loop ext_ok vars0
       [(''base'', ''base-1''), (''tool'', ''tool-2''), (''fetch'', ''fetch-3'')] world0
     = (Inl (ValueError ?msg),
        emit (Shell [''rsync -am'', [], ''/work/base-1/'', ''/stage/prog'']) world0)"
    by simp
  from 1 2 show ?thesis by blast
qed

text \<open>
  The claim as it was stated fails: the second entry of the plan has a link with the
  build method \<^verbatim>\<open>pip\<close>, and when it is refused the staging directory has been made and
  the first entry has been copied.
\<close>

theorem config_error_counterexample:
  "trace world0 = [] \<and>
   map_option (\<lambda>(r, w'). (r, trace w'))
     (make 1 ext_ok pkgs_two repo_mixed str_opt ''/prog'' None None 1 ''cmake'' ''pip'' None
        ''/stage'' world0)
   = Some (Inl (ValueError (''url, destination, hash only valid with '' @ [CHR 0x27]
                              @ ''make: download'' @ [CHR 0x27])),
           [Shell [''mkdir -p'', ''/stage/prog''],
            Shell [''rsync -am'', [], ''/work/base-1/'', ''/stage/prog'']])"
  by code_simp

end
